theory Spec2Isabelle
  imports Complex_Main "HOL-Library.Word" "HOL-Library.Signed_Division"
begin

unbundle bit_operations_syntax

section \<open>The encoder module of LiteX-CNC (litexcnc\_encoder.c)\<close>

text \<open>
  The driver keeps, for every encoder of a board, a set of HAL pins and parameters, a
  memo of old values and some derived data. \<^verbatim>\<open>litexcnc_encoder_process_read\<close> decodes
  the bytes received from the FPGA into these, \<^verbatim>\<open>litexcnc_encoder_prepare_write\<close>
  assembles the bytes sent to it.

  Conventions of the embedding:
  \<^item> \<^verbatim>\<open>hal_s32_t\<close> is a \<open>32 word\<close>, read as two's complement with \<open>sint\<close>; its
    division by 4 is C's truncating division (\<open>sdiv\<close>), and the subtraction of the
    reset offset wraps around as the machine's does (C leaves the overflow of a
    signed subtraction undefined);
  \<^item> the \<^verbatim>\<open>int64_t difference\<close> is an \<open>int\<close>: it is computed from two 32-bit values
    and one addition of \<^verbatim>\<open>UINT_MAX\<close>, which stays far inside 64 bits;
  \<^item> \<^verbatim>\<open>hal_float_t\<close> (a double) is idealised as a \<open>real\<close>: arithmetic is exact and
    there is neither NaN nor infinity. The two places where the source narrows a
    double to a \<^verbatim>\<open>float\<close> are kept, as applications of a rounding function
    \<open>to_float\<close> the model takes as a parameter. A literal that a stored double is
    compared with has the value of the double it denotes (\<open>double_1e_20\<close>), since
    the comparison decides a branch. The one division whose divisor can
    be zero is \<^verbatim>\<open>1.0 / (period * 0.000000001)\<close> for a period of 0: the double is
    infinite there, the model has HOL's \<open>1 / 0 = 0\<close>, and no statement below
    depends on the value of \<open>recip_dt\<close>;
  \<^item> \<^verbatim>\<open>hal_bit_t\<close> is a \<open>bool\<close>, and every pin has a storage of its own (the source
    reaches a pin through a pointer; pins wired to one HAL signal would share their
    storage, and that wiring is made outside this file);
  \<^item> the buffer behind \<^verbatim>\<open>uint8_t **data\<close> is a list of bytes with a cursor, the index
    of the byte \<^verbatim>\<open>*data\<close> points to. Reading or writing at a cursor outside the
    buffer, or outside the velocity array, is undefined in C: the model returns an
    error there.
\<close>

type_synonym byte = "8 word"
type_synonym s32 = "32 word"

datatype error = Buffer_overrun | Velocity_index_out_of_range

text \<open>
  \<^verbatim>\<open>litexcnc_encoder_instance_t\<close>: the pins (\<^verbatim>\<open>hal.pin\<close>), the parameters
  (\<^verbatim>\<open>hal.param\<close>), the memo and the derived data of one encoder. The header
  declaring the struct is not among the sources; the fields are the ones the
  functions use.
\<close>

record encoder_instance =
  raw_counts :: s32
  counts :: s32
  reset :: bool
  index_enable :: bool
  index_pulse :: bool
  position :: real
  velocity :: real
  velocity_rpm :: real
  overflow_occurred :: bool
  position_scale :: real
  x4_mode :: bool
  memo_position_scale :: real
  memo_position_reset :: s32
  memo_velocity :: "real list"
  position_scale_recip :: real

text \<open>
  \<^verbatim>\<open>litexcnc_encoder_t\<close>: the encoders of one board, with the memo and data shared by
  them. The array \<^verbatim>\<open>instances\<close> is allocated with \<^verbatim>\<open>num_instances\<close> entries by
  \<^verbatim>\<open>litexcnc_encoder_init\<close>, so the count is the length of the list.
\<close>

record encoder =
  instances :: "encoder_instance list"
  memo_period :: int
  velocity_pointer :: nat
  recip_dt :: real

definition num_instances :: "encoder \<Rightarrow> nat" where
  "num_instances enc = length (instances enc)"

text \<open>
  The constants of the missing header \<^verbatim>\<open>litexcnc_encoder.h\<close> are parameters of the
  model: \<^verbatim>\<open>LITEXCNC_ENCODER_POSITION_AVERAGE_SIZE\<close>,
  \<^verbatim>\<open>LITEXCNC_ENCODER_POSITION_AVERAGE_RECIP\<close>, and with them the rounding of a
  double to a \<^verbatim>\<open>float\<close>.
\<close>

record header =
  POSITION_AVERAGE_SIZE :: nat
  POSITION_AVERAGE_RECIP :: real
  to_float :: "real \<Rightarrow> real"

text \<open>
  Modelled from the spec: \<^verbatim>\<open>sizeof(litexcnc_encoder_instance_read_data_t)\<close>. The
  struct is declared in the missing header; the spec describes the per-channel
  record as a single 32-bit signed integer, and the source reads its one field
  \<^verbatim>\<open>counts\<close> as a \<^verbatim>\<open>uint32_t\<close>.
\<close>

definition sizeof_read_data :: nat where
  "sizeof_read_data = 4"

subsection \<open>Buffer sizes\<close>

text \<open>
  \<^verbatim>\<open>(((n)>>5) + ((n & 0x1F)?1:0)) * 4\<close>. The count is read from a 32-bit word of the
  configuration, so the \<^verbatim>\<open>size_t\<close> arithmetic does not wrap.
\<close>

definition single_dword_buffer :: "encoder \<Rightarrow> nat" where
  "single_dword_buffer encoder_module =
     (drop_bit 5 (num_instances encoder_module)
        + (if num_instances encoder_module AND 0x1F \<noteq> 0 then 1 else 0)) * 4"

definition required_write_buffer :: "encoder \<Rightarrow> nat" where
  "required_write_buffer encoder = single_dword_buffer encoder * 2"

text \<open>
  The second summand of \<^verbatim>\<open>required_read_buffer\<close> multiplies the file-level
  \<^verbatim>\<open>static int num_instances\<close>, the number of encoder modules
  \<^verbatim>\<open>litexcnc_encoder_init\<close> has created so far, and not the field
  \<^verbatim>\<open>encoder->num_instances\<close>. The static variable is the first argument here.
\<close>

definition required_read_buffer :: "nat \<Rightarrow> encoder \<Rightarrow> nat" where
  "required_read_buffer static_num_instances encoder =
     single_dword_buffer encoder + static_num_instances * sizeof_read_data"

subsection \<open>The shared registers\<close>

text \<open>
  The end of each loop body (\<open>msk\<close> is the source's \<^verbatim>\<open>mask\<close>):
  \<^verbatim>\<open>mask >>= 1; if (!mask) { mask = 0x80; (*data)++; }\<close>
\<close>

definition next_mask :: "byte \<Rightarrow> nat \<Rightarrow> byte \<times> nat" where
  "next_mask msk cur =
     (let msk' = drop_bit 1 msk in if msk' = 0 then (0x80, Suc cur) else (msk', cur))"

text \<open>
  The index-pulse loop of \<^verbatim>\<open>litexcnc_encoder_process_read\<close>, started with
  \<open>i = single_dword_buffer encoder * 8\<close> and \<open>mask = 0x80\<close>. The first argument is the
  loop counter \<open>i\<close>; the body runs while \<open>i > 0\<close>, guards with \<open>i < num_instances\<close>
  and addresses \<open>instances[i - 1]\<close>. \<open>set_index_pulse\<close> is the guarded part of the
  body: the index enable is reset on an index pulse, and the index pulse is set.
\<close>

definition set_index_pulse :: "bool \<Rightarrow> encoder_instance \<Rightarrow> encoder_instance" where
  "set_index_pulse pulse inst =
     (let inst1 = (if pulse then inst\<lparr>index_enable := False\<rparr> else inst)
      in inst1\<lparr>index_pulse := pulse\<rparr>)"

fun index_pulse_loop ::
  "nat \<Rightarrow> byte \<Rightarrow> nat \<Rightarrow> byte list \<Rightarrow> encoder_instance list
     \<Rightarrow> error + (encoder_instance list \<times> nat)" where
  "index_pulse_loop 0 msk cur data insts = Inr (insts, cur)"
| "index_pulse_loop (Suc i') msk cur data insts =
     (if Suc i' < length insts then
        (if cur < length data then
           (let pulse = (data ! cur AND msk \<noteq> 0);
                (msk', cur') = next_mask msk cur
            in index_pulse_loop i' msk' cur' data
                 (insts[i' := set_index_pulse pulse (insts ! i')]))
         else Inl Buffer_overrun)
      else
        (let (msk', cur') = next_mask msk cur
         in index_pulse_loop i' msk' cur' data insts))"

text \<open>
  The two loops of \<^verbatim>\<open>litexcnc_encoder_prepare_write\<close> differ in the pin they read
  only (\<^verbatim>\<open>index_enable\<close>, then \<^verbatim>\<open>index_pulse\<close>), which is the first argument:
  \<^verbatim>\<open>*(*data) |= *(encoder->instances[i-1].hal.pin.<pin>)?mask:0;\<close>
\<close>

fun write_flag_loop ::
  "(encoder_instance \<Rightarrow> bool) \<Rightarrow> nat \<Rightarrow> byte \<Rightarrow> nat \<Rightarrow> byte list
     \<Rightarrow> encoder_instance list \<Rightarrow> error + (byte list \<times> nat)" where
  "write_flag_loop pin 0 msk cur data insts = Inr (data, cur)"
| "write_flag_loop pin (Suc i') msk cur data insts =
     (if Suc i' < length insts then
        (if cur < length data then
           (let data' = data[cur := data ! cur OR (if pin (insts ! i') then msk else 0)];
                (msk', cur') = next_mask msk cur
            in write_flag_loop pin i' msk' cur' data' insts)
         else Inl Buffer_overrun)
      else
        (let (msk', cur') = next_mask msk cur
         in write_flag_loop pin i' msk' cur' data insts))"

definition prepare_write :: "encoder \<Rightarrow> byte list \<Rightarrow> nat \<Rightarrow> error + (byte list \<times> nat)" where
  "prepare_write encoder data cur =
     (if num_instances encoder = 0 then Inr (data, cur)
      else
        (case write_flag_loop index_enable (single_dword_buffer encoder * 8) 0x80 cur data
                (instances encoder) of
           Inl e \<Rightarrow> Inl e
         | Inr (data1, cur1) \<Rightarrow>
             write_flag_loop index_pulse (single_dword_buffer encoder * 8) 0x80 cur1 data1
               (instances encoder)))"

subsection \<open>One encoder in \<^verbatim>\<open>litexcnc_encoder_process_read\<close>\<close>

text \<open>
  The value of the literal \<^verbatim>\<open>1e-20\<close>. The source compares the scale, a double, with
  this literal, which denotes the double nearest to \<open>10^-20\<close>: 6646139978924579
  times \<open>2^-119\<close>, a little less than \<open>10^-20\<close>. The literal \<^verbatim>\<open>-1e-20\<close> is its negation.
\<close>

definition double_1e_20 :: real where
  "double_1e_20 = 6646139978924579 / 2 ^ 119"

text \<open>
  The check for a changed position scale: the scale is compared with its memo, a
  changed scale strictly between the doubles \<^verbatim>\<open>-1e-20\<close> and \<^verbatim>\<open>1e-20\<close> is replaced by
  \<open>1.0\<close>, and the reciprocal and the memo are renewed.
\<close>

definition update_position_scale :: "encoder_instance \<Rightarrow> encoder_instance" where
  "update_position_scale inst =
     (if position_scale inst \<noteq> memo_position_scale inst then
        (let inst1 = (if position_scale inst > - double_1e_20 \<and> position_scale inst < double_1e_20
                      then inst\<lparr>position_scale := 1\<rparr> else inst);
             inst2 = inst1\<lparr>position_scale_recip := 1 / position_scale inst1\<rparr>
         in inst2\<lparr>memo_position_scale := position_scale inst2\<rparr>)
      else inst)"

text \<open>
  \<^verbatim>\<open>memcpy\<close> of the four bytes at the cursor followed by \<^verbatim>\<open>be32toh\<close>: the bytes are
  read as a big-endian number, whatever the byte order of the host.
\<close>

definition be32toh :: "byte list \<Rightarrow> nat \<Rightarrow> s32" where
  "be32toh data cur =
     push_bit 24 (ucast (data ! cur)) OR push_bit 16 (ucast (data ! (cur + 1)))
       OR push_bit 8 (ucast (data ! (cur + 2))) OR ucast (data ! (cur + 3))"

text \<open>Division of a \<^verbatim>\<open>hal_s32_t\<close> by 4, truncating towards zero as C does.\<close>

definition div4 :: "s32 \<Rightarrow> s32" where
  "div4 c = word_of_int (sint c sdiv 4)"

text \<open>The limits of \<^verbatim>\<open>limits.h\<close> for a 32-bit \<^verbatim>\<open>int\<close>.\<close>

definition INT_MIN :: int where
  "INT_MIN = - (2 ^ 31)"

definition INT_MAX :: int where
  "INT_MAX = 2 ^ 31 - 1"

definition UINT_MAX :: int where
  "UINT_MAX = 2 ^ 32 - 1"

text \<open>
  The roll-over detection on the 64-bit \<^verbatim>\<open>difference\<close>: whether a roll-over is
  detected, and the difference after the compensation.
\<close>

definition roll_over :: "bool \<Rightarrow> int \<Rightarrow> bool \<times> int" where
  "roll_over x4 difference =
     (if difference < INT_MIN \<or> difference > INT_MAX then
        (let difference1 = (if difference < 0 then difference + UINT_MAX
                            else difference - UINT_MAX);
             difference2 = (if \<not> x4 then difference1 sdiv 4 else difference1)
         in (True, difference2))
      else (False, difference))"

text \<open>
  The new position, from the counts or, after a roll-over, from the old position
  and the difference. \<open>counts_old\<close> is the source's local variable.
\<close>

definition update_position :: "s32 \<Rightarrow> encoder_instance \<Rightarrow> encoder_instance" where
  "update_position counts_old inst =
     (if index_pulse inst then
        inst\<lparr>position := real_of_int (sint (counts inst)) * position_scale_recip inst,
             overflow_occurred := False\<rparr>
      else
        (let (detected, difference) =
               roll_over (x4_mode inst) (sint (raw_counts inst) - sint counts_old);
             inst1 = (if detected then inst\<lparr>overflow_occurred := True\<rparr> else inst)
         in if overflow_occurred inst1 then
              inst1\<lparr>position := position inst1
                        + real_of_int difference * position_scale_recip inst1\<rparr>
            else
              inst1\<lparr>position := real_of_int (sint (counts inst1))
                        * position_scale_recip inst1\<rparr>))"

text \<open>
  The running average of the velocity. \<^verbatim>\<open>memo.velocity\<close> is an array; the write at
  \<open>velocity_pointer\<close> and the reads of the summation loop must stay inside it. The
  sum is accumulated in a \<^verbatim>\<open>float\<close>. The last line of the source,
  \<^verbatim>\<open>if (velocity_pointer++ >= SIZE) {velocity_pointer=0;}\<close>, compares the value
  before the increment.
\<close>

definition update_velocity ::
  "header \<Rightarrow> real \<Rightarrow> nat \<Rightarrow> real \<Rightarrow> encoder_instance \<Rightarrow> error + (encoder_instance \<times> nat)" where
  "update_velocity h rdt vp position_old inst =
     (if \<not> index_pulse inst then
        (if vp < length (memo_velocity inst)
            \<and> POSITION_AVERAGE_SIZE h \<le> length (memo_velocity inst) then
           (let inst1 = inst\<lparr>memo_velocity :=
                          (memo_velocity inst)[vp := (position inst - position_old) * rdt]\<rparr>;
                average = fold (\<lambda>v a. to_float h (a + v))
                            (take (POSITION_AVERAGE_SIZE h) (memo_velocity inst1)) 0;
                inst2 = inst1\<lparr>velocity := average * POSITION_AVERAGE_RECIP h\<rparr>;
                inst3 = inst2\<lparr>velocity_rpm := velocity inst2 * 60\<rparr>
            in Inr (inst3, if vp \<ge> POSITION_AVERAGE_SIZE h then 0 else Suc vp))
         else Inl Velocity_index_out_of_range)
      else Inr (inst, vp))"

text \<open>
  The reading of the counts: the new raw counts, the counts with the x4 mode taken
  into account, and the reset mechanism, which also replaces \<open>counts_old\<close>. The
  result is the instance with the reset offset applied, and \<open>counts_old\<close>.
\<close>

definition read_counts :: "s32 \<Rightarrow> encoder_instance \<Rightarrow> encoder_instance \<times> s32" where
  "read_counts raw inst =
     (let counts_old = raw_counts inst;
          inst1 = inst\<lparr>raw_counts := raw\<rparr>;
          inst2 = inst1\<lparr>counts := raw_counts inst1\<rparr>;
          inst3 = (if \<not> x4_mode inst2 then inst2\<lparr>counts := div4 (counts inst2)\<rparr> else inst2);
          (inst4, counts_old1) =
            (if reset inst3 then
               (inst3\<lparr>overflow_occurred := False, memo_position_reset := counts inst3,
                      reset := False\<rparr>,
                raw_counts inst3)
             else (inst3, counts_old));
          inst5 = inst4\<lparr>counts := counts inst4 - memo_position_reset inst4\<rparr>
      in (inst5, counts_old1))"

text \<open>
  The body of the loop over the instances: the instance after the update, the
  shared velocity pointer and the cursor.
\<close>

definition process_instance ::
  "header \<Rightarrow> real \<Rightarrow> nat \<Rightarrow> byte list \<Rightarrow> nat \<Rightarrow> encoder_instance
     \<Rightarrow> error + (encoder_instance \<times> nat \<times> nat)" where
  "process_instance h rdt vp data cur inst =
     (let inst1 = update_position_scale inst in
      if cur + sizeof_read_data \<le> length data then
        (let (inst2, counts_old) = read_counts (be32toh data cur) inst1;
             position_old = to_float h (position inst2);
             inst3 = update_position counts_old inst2
         in case update_velocity h rdt vp position_old inst3 of
              Inl e \<Rightarrow> Inl e
            | Inr (inst4, vp') \<Rightarrow> Inr (inst4, vp', cur + sizeof_read_data))
      else Inl Buffer_overrun)"

fun process_instances ::
  "header \<Rightarrow> real \<Rightarrow> nat \<Rightarrow> byte list \<Rightarrow> nat \<Rightarrow> encoder_instance list
     \<Rightarrow> error + (encoder_instance list \<times> nat \<times> nat)" where
  "process_instances h rdt vp data cur [] = Inr ([], vp, cur)"
| "process_instances h rdt vp data cur (inst # insts) =
     (case process_instance h rdt vp data cur inst of
        Inl e \<Rightarrow> Inl e
      | Inr (inst', vp1, cur1) \<Rightarrow>
          (case process_instances h rdt vp1 data cur1 insts of
             Inl e \<Rightarrow> Inl e
           | Inr (insts', vp2, cur2) \<Rightarrow> Inr (inst' # insts', vp2, cur2)))"

subsection \<open>\<^verbatim>\<open>litexcnc_encoder_process_read\<close>\<close>

definition process_read ::
  "header \<Rightarrow> encoder \<Rightarrow> byte list \<Rightarrow> nat \<Rightarrow> int \<Rightarrow> error + (encoder \<times> nat)" where
  "process_read h encoder data cur period =
     (if num_instances encoder = 0 then Inr (encoder, cur)
      else
        (let enc1 = (if memo_period encoder \<noteq> period then
                       encoder\<lparr>recip_dt := 1 / (real_of_int period * (1 / 10 ^ 9)),
                               memo_period := period\<rparr>
                     else encoder)
         in case index_pulse_loop (single_dword_buffer enc1 * 8) 0x80 cur data
                   (instances enc1) of
              Inl e \<Rightarrow> Inl e
            | Inr (insts1, cur1) \<Rightarrow>
                (case process_instances h (recip_dt enc1) (velocity_pointer enc1) data cur1
                        insts1 of
                   Inl e \<Rightarrow> Inl e
                 | Inr (insts2, vp, cur2) \<Rightarrow>
                     Inr (enc1\<lparr>instances := insts2, velocity_pointer := vp\<rparr>, cur2))))"

subsection \<open>States and notions used in the statements\<close>

text \<open>
  An instance and an encoder with every field zero, the velocity array having \<open>n\<close>
  entries.
\<close>

definition zeroed_instance :: "nat \<Rightarrow> encoder_instance" where
  "zeroed_instance n =
     \<lparr>raw_counts = 0, counts = 0, reset = False, index_enable = False, index_pulse = False,
      position = 0, velocity = 0, velocity_rpm = 0, overflow_occurred = False,
      position_scale = 0, x4_mode = False, memo_position_scale = 0,
      memo_position_reset = 0, memo_velocity = replicate n 0, position_scale_recip = 0\<rparr>"

definition zeroed_encoder :: "encoder_instance list \<Rightarrow> encoder" where
  "zeroed_encoder insts =
     \<lparr>instances = insts, memo_period = 0, velocity_pointer = 0, recip_dt = 0\<rparr>"

text \<open>
  The state of a shared-register loop at counter \<open>i\<close>: the mask selects bit
  \<open>(i - 1) mod 8\<close> of the byte at the cursor.
\<close>

definition mask_at :: "nat \<Rightarrow> byte \<Rightarrow> bool" where
  "mask_at i msk \<longleftrightarrow> (i = 0 \<or> msk = 2 ^ ((i - 1) mod 8))"

text \<open>
  Bit \<open>j\<close> of a shared register of \<open>nbytes\<close> bytes that starts at byte \<open>start\<close> of
  the buffer, the register being read as one big-endian number: bit 0 is the least
  significant bit of the last byte, bit \<open>8 * nbytes - 1\<close> the most significant bit of
  the first.
\<close>

definition register_bit :: "byte list \<Rightarrow> nat \<Rightarrow> nat \<Rightarrow> nat \<Rightarrow> bool" where
  "register_bit data start nbytes j = bit (data ! (start + nbytes - 1 - j div 8)) (j mod 8)"

text \<open>
  The layout in the words of the specification, for comparison with the one of the
  source: the bit of channel \<open>i\<close> in a shared register that starts at byte \<open>start\<close>,
  with MSB-first bit order within each byte and channel 0 on the most significant
  bit of the block.
\<close>

definition spec_register_bit :: "byte list \<Rightarrow> nat \<Rightarrow> nat \<Rightarrow> bool" where
  "spec_register_bit data start i = bit (data ! (start + i div 8)) (7 - i mod 8)"

text \<open>
  A header for the examples: eight velocity samples, their reciprocal, and a
  \<^verbatim>\<open>float\<close> conversion that does not round.
\<close>

definition example_header :: header where
  "example_header =
     \<lparr>POSITION_AVERAGE_SIZE = 8, POSITION_AVERAGE_RECIP = 1 / 8, to_float = (\<lambda>x. x)\<rparr>"

text \<open>
  The difference the roll-over detection ends with in the pass that takes \<open>inst\<close> to
  \<open>inst'\<close>: the new raw counts minus \<open>counts_old\<close>, which is the old raw counts or,
  after a reset, the new ones, with the compensation of \<open>roll_over\<close> applied.
\<close>

definition tick_difference :: "encoder_instance \<Rightarrow> encoder_instance \<Rightarrow> int" where
  "tick_difference inst inst' =
     snd (roll_over (x4_mode inst)
            (sint (raw_counts inst') - sint (if reset inst then raw_counts inst' else raw_counts inst)))"


section \<open>Properties\<close>

subsection \<open>Buffer sizes\<close>

lemma ceil32: "n div 32 + (if n mod 32 \<noteq> 0 then 1 else 0) = (n + 31) div (32::nat)"
proof -
  have r: "n mod 32 < 32" by simp
  have "(n + 31) div 32 = n div 32 + (n mod 32 + 31) div 32"
    by (subst div_add1_eq) simp
  moreover have "(n mod 32 + 31) div 32 = (if n mod 32 \<noteq> 0 then 1 else 0)"
  proof (cases "n mod 32 = 0")
    case True
    then show ?thesis by simp
  next
    case False
    with r have "(n mod 32 + 31) div 32 = 1"
      by (intro div_nat_eqI) simp_all
    with False show ?thesis by simp
  qed
  ultimately show ?thesis by simp
qed

text \<open>The size of one shared register is the count rounded up to whole 32-bit words.\<close>

lemma single_dword_buffer_ceil:
  "single_dword_buffer enc = ((num_instances enc + 31) div 32) * 4"
proof -
  have a: "n AND 0x1F = n mod 32" for n :: nat
    using take_bit_eq_mask [of 5 n] by (simp add: take_bit_eq_mod mask_eq_exp_minus_1)
  have b: "drop_bit 5 n = n div 32" for n :: nat
    by (simp add: drop_bit_eq_div)
  show ?thesis
    unfolding single_dword_buffer_def a b ceil32 ..
qed

lemma required_write_buffer_eq:
  "required_write_buffer enc = 2 * ((num_instances enc + 31) div 32) * 4"
  by (simp add: required_write_buffer_def single_dword_buffer_ceil)

lemma required_read_buffer_eq:
  "required_read_buffer g enc = ((num_instances enc + 31) div 32) * 4 + g * sizeof_read_data"
  by (simp add: required_read_buffer_def single_dword_buffer_ceil)

text \<open>For a count that fits 32 bits the sizes are far from the range of \<^verbatim>\<open>size_t\<close>.\<close>

lemma required_write_buffer_bound:
  assumes "num_instances enc < 2 ^ 32"
  shows "required_write_buffer enc \<le> 2 ^ 30"
proof -
  define n where "n = num_instances enc"
  from assms have "n + 31 \<le> 4294967326" by (simp add: n_def)
  then have "(n + 31) div 32 \<le> 4294967326 div 32" by (rule div_le_mono)
  also have "(4294967326 :: nat) div 32 = 134217728" by simp
  finally have "(n + 31) div 32 \<le> 134217728" .
  then show ?thesis
    unfolding required_write_buffer_eq n_def [symmetric] by simp
qed

text \<open>
  C2. The write buffer has \<open>2 * ceil(n/32) * 4\<close> bytes (\<open>required_write_buffer_eq\<close>).
  The read buffer is claimed to have \<open>ceil(n/32) * 4 + n * 4\<close> bytes for the \<open>n\<close>
  encoders of the board, a function of \<open>n\<close> alone. The source multiplies the record
  size with the file-level counter of encoder modules instead
  (\<open>required_read_buffer_eq\<close>): with one module created and two encoders on the
  board it returns 8 bytes, where the index-pulse register and the two count records
  take 12.
\<close>

theorem required_read_buffer_two_encoders:
  "required_read_buffer 1 (zeroed_encoder [zeroed_instance 8, zeroed_instance 8]) = 8
   \<and> (num_instances (zeroed_encoder [zeroed_instance 8, zeroed_instance 8]) + 31) div 32 * 4
        + num_instances (zeroed_encoder [zeroed_instance 8, zeroed_instance 8])
            * sizeof_read_data = 12"
  by (simp add: required_read_buffer_eq num_instances_def zeroed_encoder_def
      sizeof_read_data_def)

subsection \<open>The shared-register loops\<close>

lemma next_mask_exp:
  assumes "m < 8"
  shows "next_mask (2 ^ m) cur = (if m = 0 then (0x80, Suc cur) else (2 ^ (m - 1), cur))"
proof -
  have "drop_bit 1 ((2::byte) ^ m) = (if m = 0 then 0 else 2 ^ (m - 1))"
    using assms by (simp add: drop_bit_exp_eq)
  moreover have "(2::byte) ^ (m - 1) \<noteq> 0"
    using assms by simp
  ultimately show ?thesis
    by (simp add: next_mask_def Let_def)
qed

lemma mask_test: "m < 8 \<Longrightarrow> (x AND (2::byte) ^ m \<noteq> 0) = bit x m"
  by (simp add: and_exp_eq_0_iff_not_bit)

lemma ceil8: "(j + 7) div 8 = j div 8 + (if j mod 8 = 0 then 0 else 1)" for j :: nat
proof -
  have r: "j mod 8 < 8" by simp
  have "(j + 7) div 8 = j div 8 + (j mod 8 + 7) div 8"
    by (subst div_add1_eq) simp
  moreover have "(j mod 8 + 7) div 8 = (if j mod 8 = 0 then 0 else 1)"
  proof (cases "j mod 8 = 0")
    case True
    then show ?thesis by simp
  next
    case False
    with r have "(j mod 8 + 7) div 8 = 1"
      by (intro div_nat_eqI) simp_all
    with False show ?thesis by simp
  qed
  ultimately show ?thesis by simp
qed

lemma end_step:
  "(if j mod 8 = 0 then Suc cur else cur) + (j + 7) div 8 = cur + (Suc j + 7) div 8"
proof -
  have "(Suc j + 7) div 8 = j div 8 + 1" by simp
  then show ?thesis by (simp add: ceil8)
qed

lemma inv_step:
  "j = 0 \<or> (if j mod 8 = 0 then (128::byte) else 2 ^ (j mod 8 - 1)) = 2 ^ ((j - 1) mod 8)" for j :: nat
proof (cases j)
  case 0
  then show ?thesis by simp
next
  case (Suc k)
  have "k mod 8 < 8" by simp
  then have "Suc (k mod 8) = 8 \<longleftrightarrow> k mod 8 = 7" by linarith
  then show ?thesis using Suc by (simp add: mod_Suc)
qed

lemma mask_at_start: "mask_at (n * 8) 0x80"
proof (cases n)
  case 0
  then show ?thesis by (simp add: mask_at_def)
next
  case (Suc k)
  have "(Suc k * 8 - 1) mod 8 = (k * 8 + 7) mod 8" by simp
  also have "\<dots> = 7" by (simp add: mod_mult_self3)
  finally show ?thesis using Suc by (simp add: mask_at_def)
qed

lemma next_mask_at:
  assumes "mask_at (Suc j) msk"
  shows "\<exists>msk' cur'. next_mask msk cur = (msk', cur') \<and> mask_at j msk'
           \<and> cur' + (j + 7) div 8 = cur + (Suc j + 7) div 8"
proof -
  from assms have m: "msk = 2 ^ (j mod 8)" by (simp add: mask_at_def)
  have "next_mask msk cur = (if j mod 8 = 0 then (0x80, Suc cur) else (2 ^ (j mod 8 - 1), cur))"
    unfolding m by (rule next_mask_exp) simp
  then show ?thesis
    using inv_step [of j] end_step [of j cur] by (auto simp: mask_at_def)
qed

lemma index_pulse_loop_frame:
  "index_pulse_loop i msk cur data insts = Inr (insts', cur') \<Longrightarrow>
     length insts' = length insts
     \<and> (\<forall>j. \<not> (j < i \<and> Suc j < length insts) \<longrightarrow> insts' ! j = insts ! j)
     \<and> (\<forall>j < length insts. insts' ! j =
           (insts ! j)\<lparr>index_enable := index_enable (insts' ! j),
                        index_pulse := index_pulse (insts' ! j)\<rparr>)"
proof (induction i arbitrary: msk cur insts)
  case 0
  then show ?case by simp
next
  case (Suc i)
  obtain msk' cur1 where nm: "next_mask msk cur = (msk', cur1)" by (cases "next_mask msk cur")
  show ?case
  proof (cases "Suc i < length insts")
    case False
    with Suc.prems nm have "index_pulse_loop i msk' cur1 data insts = Inr (insts', cur')"
      by simp
    from Suc.IH [OF this] False show ?thesis by auto
  next
    case True
    with Suc.prems have inb: "cur < length data" by (auto split: if_splits)
    define insts1 where "insts1 = insts[i := set_index_pulse (data ! cur AND msk \<noteq> 0) (insts ! i)]"
    from Suc.prems True inb nm have "index_pulse_loop i msk' cur1 data insts1 = Inr (insts', cur')"
      by (simp add: insts1_def Let_def)
    from Suc.IH [OF this] have
      l: "length insts' = length insts1" and
      f: "\<forall>j. \<not> (j < i \<and> Suc j < length insts1) \<longrightarrow> insts' ! j = insts1 ! j" and
      g: "\<forall>j < length insts1. insts' ! j =
           (insts1 ! j)\<lparr>index_enable := index_enable (insts' ! j),
                         index_pulse := index_pulse (insts' ! j)\<rparr>"
      by blast+
    have l1: "length insts1 = length insts" by (simp add: insts1_def)
    have "insts' ! j = insts ! j" if "\<not> (j < Suc i \<and> Suc j < length insts)" for j
    proof -
      from that have "j \<noteq> i" using True by auto
      then have "insts1 ! j = insts ! j" by (simp add: insts1_def)
      moreover from that have "\<not> (j < i \<and> Suc j < length insts1)" using l1 by auto
      ultimately show ?thesis using f by simp
    qed
    moreover have "insts' ! j = (insts ! j)\<lparr>index_enable := index_enable (insts' ! j),
                        index_pulse := index_pulse (insts' ! j)\<rparr>"
      if "j < length insts" for j
    proof -
      from that g l1 have ab: "insts' ! j =
           (insts1 ! j)\<lparr>index_enable := index_enable (insts' ! j),
                         index_pulse := index_pulse (insts' ! j)\<rparr>"
        by auto
      have "\<exists>a b. insts1 ! j = (insts ! j)\<lparr>index_enable := a, index_pulse := b\<rparr>"
      proof (cases "j = i")
        case True
        with that have "insts1 ! j = set_index_pulse (data ! cur AND msk \<noteq> 0) (insts ! j)"
          by (simp add: insts1_def)
        then have "insts1 ! j = (insts ! j)\<lparr>index_enable := index_enable (insts1 ! j),
                        index_pulse := index_pulse (insts1 ! j)\<rparr>"
          by (simp add: set_index_pulse_def Let_def)
        then show ?thesis by blast
      next
        case False
        then have "insts1 ! j = insts ! j" by (simp add: insts1_def)
        then have "insts1 ! j = (insts ! j)\<lparr>index_enable := index_enable (insts ! j),
                        index_pulse := index_pulse (insts ! j)\<rparr>"
          by simp
        then show ?thesis by blast
      qed
      then obtain a b where "insts1 ! j = (insts ! j)\<lparr>index_enable := a, index_pulse := b\<rparr>"
        by blast
      with ab show ?thesis by simp
    qed
    ultimately show ?thesis using l l1 by simp
  qed
qed

lemma index_pulse_loop_result:
  assumes "index_pulse_loop i msk cur data insts = Inr (insts', cur')" and "mask_at i msk"
  shows "cur' = cur + (i + 7) div 8
           \<and> (\<forall>j. j < i \<longrightarrow> Suc j < length insts \<longrightarrow>
                 insts' ! j = set_index_pulse
                   (bit (data ! (cur + (i + 7) div 8 - 1 - j div 8)) (j mod 8)) (insts ! j))"
  using assms
proof (induction i arbitrary: msk cur insts)
  case 0
  then show ?case by simp
next
  case (Suc i)
  from next_mask_at [OF Suc.prems(2)] obtain msk' cur1 where
    nm: "next_mask msk cur = (msk', cur1)" and m': "mask_at i msk'" and
    e: "cur1 + (i + 7) div 8 = cur + (Suc i + 7) div 8"
    by blast
  from Suc.prems(2) have msk: "msk = 2 ^ (i mod 8)" by (simp add: mask_at_def)
  have e': "cur + (Suc i + 7) div 8 = Suc (cur + i div 8)" by simp
  show ?case
  proof (cases "Suc i < length insts")
    case False
    with Suc.prems(1) nm have r: "index_pulse_loop i msk' cur1 data insts = Inr (insts', cur')"
      by simp
    from Suc.IH [OF r m'] have c: "cur' = cur1 + (i + 7) div 8" and
      v: "\<forall>j. j < i \<longrightarrow> Suc j < length insts \<longrightarrow>
            insts' ! j = set_index_pulse
              (bit (data ! (cur1 + (i + 7) div 8 - 1 - j div 8)) (j mod 8)) (insts ! j)"
      by blast+
    have "insts' ! j = set_index_pulse
        (bit (data ! (cur + (Suc i + 7) div 8 - 1 - j div 8)) (j mod 8)) (insts ! j)"
      if "j < Suc i" "Suc j < length insts" for j
    proof -
      from that False have "j < i" by (cases "j = i") auto
      with v that show ?thesis unfolding e by blast
    qed
    with c e show ?thesis by simp
  next
    case True
    with Suc.prems(1) have inb: "cur < length data" by (auto split: if_splits)
    define pulse where "pulse = bit (data ! cur) (i mod 8)"
    define insts1 where "insts1 = insts[i := set_index_pulse pulse (insts ! i)]"
    have pt: "(data ! cur AND msk \<noteq> 0) = pulse"
      unfolding msk pulse_def by (rule mask_test) simp
    from Suc.prems(1) True inb nm pt
    have r: "index_pulse_loop i msk' cur1 data insts1 = Inr (insts', cur')"
      by (simp add: insts1_def Let_def)
    from Suc.IH [OF r m'] have c: "cur' = cur1 + (i + 7) div 8" and
      v: "\<forall>j. j < i \<longrightarrow> Suc j < length insts1 \<longrightarrow>
            insts' ! j = set_index_pulse
              (bit (data ! (cur1 + (i + 7) div 8 - 1 - j div 8)) (j mod 8)) (insts1 ! j)"
      by blast+
    from index_pulse_loop_frame [OF r] have
      fr: "\<forall>j. \<not> (j < i \<and> Suc j < length insts1) \<longrightarrow> insts' ! j = insts1 ! j"
      by blast
    have "insts' ! j = set_index_pulse
        (bit (data ! (cur + (Suc i + 7) div 8 - 1 - j div 8)) (j mod 8)) (insts ! j)"
      if "j < Suc i" "Suc j < length insts" for j
    proof (cases "j = i")
      case False
      with that have ji: "j < i" by simp
      with False have "insts1 ! j = insts ! j" by (simp add: insts1_def)
      moreover from that have "Suc j < length insts1" by (simp add: insts1_def)
      ultimately show ?thesis using v ji unfolding e by simp
    next
      case ji: True
      from fr have "insts' ! i = insts1 ! i" by simp
      also have "\<dots> = set_index_pulse pulse (insts ! i)"
        using True by (simp add: insts1_def)
      finally show ?thesis
        unfolding ji e' pulse_def by simp
    qed
    with c e show ?thesis by simp
  qed
qed

lemma index_pulse_loop_returns:
  assumes "mask_at i msk" and "cur + (i + 7) div 8 \<le> length data"
  shows "\<exists>r. index_pulse_loop i msk cur data insts = Inr r"
  using assms
proof (induction i arbitrary: msk cur insts)
  case 0
  then show ?case by simp
next
  case (Suc i)
  from next_mask_at [OF Suc.prems(1)] obtain msk' cur1 where
    nm: "next_mask msk cur = (msk', cur1)" and m': "mask_at i msk'" and
    e: "cur1 + (i + 7) div 8 = cur + (Suc i + 7) div 8"
    by blast
  have e': "cur + (Suc i + 7) div 8 = Suc (cur + i div 8)" by simp
  from Suc.prems(2) e' have inb: "cur < length data" by simp
  from Suc.prems(2) e have len: "cur1 + (i + 7) div 8 \<le> length data" by simp
  from Suc.IH [OF m' len] nm inb show ?case by (simp add: Let_def)
qed

lemma num_instances_le_register: "num_instances enc \<le> single_dword_buffer enc * 8"
proof -
  define n where "n = num_instances enc"
  define q where "q = (n + 31) div 32"
  define r where "r = (n + 31) mod 32"
  have "32 * q + r = n + 31" unfolding q_def r_def by (rule mult_div_mod_eq)
  moreover have "r < 32" unfolding r_def by simp
  ultimately have "n \<le> q * 32" by linarith
  then show ?thesis
    unfolding single_dword_buffer_ceil n_def [symmetric] q_def [symmetric] by simp
qed

lemma write_flag_loop_cong:
  assumes "length insts' = length insts"
    and "\<forall>j. j < i \<longrightarrow> Suc j < length insts \<longrightarrow> pin (insts' ! j) = pin (insts ! j)"
  shows "write_flag_loop pin i msk cur data insts' = write_flag_loop pin i msk cur data insts"
  using assms
proof (induction i arbitrary: msk cur data)
  case 0
  show ?case by simp
next
  case (Suc i)
  obtain msk' cur1 where nm: "next_mask msk cur = (msk', cur1)" by (cases "next_mask msk cur")
  from Suc.prems have ih: "write_flag_loop pin i msk' cur1 d insts'
      = write_flag_loop pin i msk' cur1 d insts" for d
    by (intro Suc.IH) auto
  from Suc.prems have "Suc i < length insts \<Longrightarrow> pin (insts' ! i) = pin (insts ! i)"
    by simp
  with Suc.prems(1) nm ih show ?case by (simp add: Let_def)
qed

lemma bit_or_mask:
  "bit (x OR (2::byte) ^ (i mod 8)) b = (bit x b \<or> b = i mod 8)"
proof -
  have "i mod 8 < 8" by simp
  then show ?thesis by (auto simp: bit_or_iff bit_exp_iff)
qed

lemma write_flag_loop_char:
  assumes "mask_at i msk" and "cur + (i + 7) div 8 \<le> length data"
  shows "\<exists>data'. write_flag_loop pin i msk cur data insts = Inr (data', cur + (i + 7) div 8)
           \<and> length data' = length data
           \<and> (\<forall>p b. p < length data \<longrightarrow>
                 bit (data' ! p) b = (bit (data ! p) b
                   \<or> (\<exists>j. j < i \<and> Suc j < length insts
                         \<and> p + j div 8 + 1 = cur + (i + 7) div 8 \<and> b = j mod 8
                         \<and> pin (insts ! j))))"
  using assms
proof (induction i arbitrary: msk cur data)
  case 0
  then show ?case by simp
next
  case (Suc i)
  from next_mask_at [OF Suc.prems(1)] obtain msk' cur1 where
    nm: "next_mask msk cur = (msk', cur1)" and m': "mask_at i msk'" and
    e: "cur1 + (i + 7) div 8 = cur + (Suc i + 7) div 8"
    by blast
  from Suc.prems(1) have msk: "msk = 2 ^ (i mod 8)" by (simp add: mask_at_def)
  have e': "cur + (Suc i + 7) div 8 = Suc (cur + i div 8)" by simp
  from Suc.prems(2) e' have inb: "cur < length data" by simp
  define data1 where "data1 = (if Suc i < length insts
      then data[cur := data ! cur OR (if pin (insts ! i) then msk else 0)] else data)"
  have l1: "length data1 = length data" by (simp add: data1_def)
  from Suc.prems(2) e l1 have len: "cur1 + (i + 7) div 8 \<le> length data1" by simp
  from Suc.IH [OF m' len] obtain data' where
    r: "write_flag_loop pin i msk' cur1 data1 insts = Inr (data', cur1 + (i + 7) div 8)" and
    l: "length data' = length data1" and
    v: "\<forall>p b. p < length data1 \<longrightarrow>
          bit (data' ! p) b = (bit (data1 ! p) b
            \<or> (\<exists>j. j < i \<and> Suc j < length insts
                  \<and> p + j div 8 + 1 = cur1 + (i + 7) div 8 \<and> b = j mod 8
                  \<and> pin (insts ! j)))"
    by blast
  from inb nm have "write_flag_loop pin (Suc i) msk cur data insts
      = write_flag_loop pin i msk' cur1 data1 insts"
    by (simp add: data1_def Let_def)
  with r have res: "write_flag_loop pin (Suc i) msk cur data insts
      = Inr (data', cur + (Suc i + 7) div 8)"
    unfolding e [symmetric] by simp
  have d1: "bit (data1 ! p) b = (bit (data ! p) b
      \<or> (Suc i < length insts \<and> p + i div 8 + 1 = cur + (Suc i + 7) div 8 \<and> b = i mod 8
            \<and> pin (insts ! i)))" if "p < length data" for p b
  proof (cases "p = cur")
    case True
    with that show ?thesis
      unfolding e' by (simp add: data1_def msk bit_or_mask)
  next
    case False
    then have "data1 ! p = data ! p" by (simp add: data1_def)
    with False show ?thesis unfolding e' by auto
  qed
  have "bit (data' ! p) b = (bit (data ! p) b
      \<or> (\<exists>j. j < Suc i \<and> Suc j < length insts
            \<and> p + j div 8 + 1 = cur + (Suc i + 7) div 8 \<and> b = j mod 8
            \<and> pin (insts ! j)))" if "p < length data" for p b
  proof -
    from that l1 v have "bit (data' ! p) b = (bit (data1 ! p) b
            \<or> (\<exists>j. j < i \<and> Suc j < length insts
                  \<and> p + j div 8 + 1 = cur + (Suc i + 7) div 8 \<and> b = j mod 8
                  \<and> pin (insts ! j)))"
      unfolding e by simp
    then show ?thesis
      unfolding d1 [OF that] less_Suc_eq by blast
  qed
  with res l l1 show ?case by simp
qed

lemma prepare_write_char:
  assumes "instances enc \<noteq> []"
    and "cur + 2 * single_dword_buffer enc \<le> length data"
  shows "\<exists>data'. prepare_write enc data cur = Inr (data', cur + 2 * single_dword_buffer enc)
           \<and> length data' = length data
           \<and> (\<forall>p b. p < length data \<longrightarrow>
                 bit (data' ! p) b = (bit (data ! p) b
                   \<or> (\<exists>j. Suc j < num_instances enc
                         \<and> p + j div 8 + 1 = cur + single_dword_buffer enc \<and> b = j mod 8
                         \<and> index_enable (instances enc ! j))
                   \<or> (\<exists>j. Suc j < num_instances enc
                         \<and> p + j div 8 + 1 = cur + 2 * single_dword_buffer enc \<and> b = j mod 8
                         \<and> index_pulse (instances enc ! j))))"
proof -
  define s where "s = single_dword_buffer enc"
  define insts where "insts = instances enc"
  have n: "num_instances enc = length insts" by (simp add: num_instances_def insts_def)
  have le: "length insts \<le> s * 8"
    using num_instances_le_register [of enc] by (simp add: n s_def)
  have b: "(s * 8 + 7) div 8 = s" by simp
  from assms(2) have l1: "cur + (s * 8 + 7) div 8 \<le> length data" by (simp add: s_def)
  from write_flag_loop_char [OF mask_at_start l1, of index_enable insts]
  obtain data1 where
    r1: "write_flag_loop index_enable (s * 8) 0x80 cur data insts = Inr (data1, cur + s)" and
    len1: "length data1 = length data" and
    v1: "\<forall>p b. p < length data \<longrightarrow>
          bit (data1 ! p) b = (bit (data ! p) b
            \<or> (\<exists>j. j < s * 8 \<and> Suc j < length insts
                  \<and> p + j div 8 + 1 = cur + s \<and> b = j mod 8 \<and> index_enable (insts ! j)))"
    unfolding b by blast
  from assms(2) len1 have l2: "(cur + s) + (s * 8 + 7) div 8 \<le> length data1"
    by (simp add: s_def)
  from write_flag_loop_char [OF mask_at_start l2, of index_pulse insts]
  obtain data2 where
    r2: "write_flag_loop index_pulse (s * 8) 0x80 (cur + s) data1 insts
           = Inr (data2, cur + s + s)" and
    len2: "length data2 = length data1" and
    v2: "\<forall>p b. p < length data1 \<longrightarrow>
          bit (data2 ! p) b = (bit (data1 ! p) b
            \<or> (\<exists>j. j < s * 8 \<and> Suc j < length insts
                  \<and> p + j div 8 + 1 = cur + s + s \<and> b = j mod 8 \<and> index_pulse (insts ! j)))"
    unfolding b by blast
  from assms(1) r1 r2 have res: "prepare_write enc data cur = Inr (data2, cur + 2 * s)"
    by (simp add: prepare_write_def num_instances_def s_def [symmetric] insts_def [symmetric]
        mult_2)
  have lt: "Suc j < length insts \<Longrightarrow> j < s * 8" for j using le by simp
  have "bit (data2 ! p) b = (bit (data ! p) b
          \<or> (\<exists>j. Suc j < length insts
                \<and> p + j div 8 + 1 = cur + s \<and> b = j mod 8 \<and> index_enable (insts ! j))
          \<or> (\<exists>j. Suc j < length insts
                \<and> p + j div 8 + 1 = cur + 2 * s \<and> b = j mod 8 \<and> index_pulse (insts ! j)))"
    if "p < length data" for p b
  proof -
    from that v1 have a: "bit (data1 ! p) b = (bit (data ! p) b
            \<or> (\<exists>j. j < s * 8 \<and> Suc j < length insts
                  \<and> p + j div 8 + 1 = cur + s \<and> b = j mod 8 \<and> index_enable (insts ! j)))"
      by blast
    from that len1 v2 have c: "bit (data2 ! p) b = (bit (data1 ! p) b
            \<or> (\<exists>j. j < s * 8 \<and> Suc j < length insts
                  \<and> p + j div 8 + 1 = cur + s + s \<and> b = j mod 8 \<and> index_pulse (insts ! j)))"
      by simp
    have t: "cur + 2 * s = cur + s + s" by simp
    show ?thesis unfolding c a t using lt by blast
  qed
  with res len1 len2 show ?thesis
    unfolding s_def [symmetric] n insts_def [symmetric] by simp
qed

lemma update_position_scale_flags [simp]:
  "index_pulse (update_position_scale inst) = index_pulse inst"
  "index_enable (update_position_scale inst) = index_enable inst"
  by (simp_all add: update_position_scale_def Let_def)

lemma read_counts_flags [simp]:
  "index_pulse (fst (read_counts raw inst)) = index_pulse inst"
  "index_enable (fst (read_counts raw inst)) = index_enable inst"
  by (simp_all add: read_counts_def Let_def split: prod.splits)

lemma update_position_flags [simp]:
  "index_pulse (update_position co inst) = index_pulse inst"
  "index_enable (update_position co inst) = index_enable inst"
  by (simp_all add: update_position_def Let_def split: prod.splits)

lemma update_velocity_flags:
  "update_velocity h rdt vp po inst = Inr (inst', vp') \<Longrightarrow>
     index_pulse inst' = index_pulse inst \<and> index_enable inst' = index_enable inst"
  by (auto simp: update_velocity_def Let_def split: if_splits)

lemma process_instance_Inr:
  assumes "process_instance h rdt vp data cur inst = Inr (inst', vp', cur')"
  shows "cur + sizeof_read_data \<le> length data \<and> cur' = cur + sizeof_read_data
     \<and> update_velocity h rdt vp
          (to_float h (position (fst (read_counts (be32toh data cur) (update_position_scale inst)))))
          (update_position (snd (read_counts (be32toh data cur) (update_position_scale inst)))
             (fst (read_counts (be32toh data cur) (update_position_scale inst))))
        = Inr (inst', vp')"
  using assms
  by (auto simp: process_instance_def Let_def split: if_splits prod.splits sum.splits)

lemma process_instance_flags:
  assumes "process_instance h rdt vp data cur inst = Inr (inst', vp', cur')"
  shows "index_pulse inst' = index_pulse inst \<and> index_enable inst' = index_enable inst"
  using update_velocity_flags [OF process_instance_Inr [OF assms, THEN conjunct2, THEN conjunct2]]
  by simp

subsection \<open>One pass of \<^verbatim>\<open>litexcnc_encoder_process_read\<close>\<close>

lemma process_instances_nth:
  assumes "process_instances h rdt vp data cur insts = Inr (insts', vp', cur')"
  shows "length insts' = length insts
     \<and> (\<forall>j < length insts. \<exists>vpj vpj'.
           process_instance h rdt vpj data (cur + j * sizeof_read_data) (insts ! j)
             = Inr (insts' ! j, vpj', cur + Suc j * sizeof_read_data))"
  using assms
proof (induction insts arbitrary: vp cur insts')
  case Nil
  then show ?case by simp
next
  case (Cons inst insts)
  from Cons.prems obtain inst1 vp1 cur1 where
    h: "process_instance h rdt vp data cur inst = Inr (inst1, vp1, cur1)"
    by (auto split: sum.splits)
  with Cons.prems obtain insts1 where
    t: "process_instances h rdt vp1 data cur1 insts = Inr (insts1, vp', cur')" and
    r: "insts' = inst1 # insts1"
    by (auto split: sum.splits)
  from process_instance_Inr [OF h] have c1: "cur1 = cur + sizeof_read_data" by simp
  from Cons.IH [OF t] have l: "length insts1 = length insts" and
    v: "\<forall>j < length insts. \<exists>vpj vpj'.
           process_instance h rdt vpj data (cur1 + j * sizeof_read_data) (insts ! j)
             = Inr (insts1 ! j, vpj', cur1 + Suc j * sizeof_read_data)"
    by blast+
  have "\<exists>vpj vpj'.
      process_instance h rdt vpj data (cur + j * sizeof_read_data) ((inst # insts) ! j)
        = Inr (insts' ! j, vpj', cur + Suc j * sizeof_read_data)"
    if "j < length (inst # insts)" for j
  proof (cases j)
    case 0
    with h c1 r show ?thesis by auto
  next
    case (Suc k)
    with that have "k < length insts" by simp
    with v obtain vpj vpj' where
      "process_instance h rdt vpj data (cur1 + k * sizeof_read_data) (insts ! k)
         = Inr (insts1 ! k, vpj', cur1 + Suc k * sizeof_read_data)"
      by blast
    then show ?thesis unfolding c1 Suc r by (auto simp: add.assoc)
  qed
  with l r show ?case by simp
qed

lemma process_read_Inr:
  assumes "process_read h enc data cur period = Inr (enc', cur')" and "instances enc \<noteq> []"
  shows "\<exists>insts1 cur1 vp. 
     index_pulse_loop (single_dword_buffer enc * 8) 0x80 cur data (instances enc)
        = Inr (insts1, cur1)
     \<and> process_instances h
          (if memo_period enc \<noteq> period then 1 / (real_of_int period * (1 / 10 ^ 9))
           else recip_dt enc)
          (velocity_pointer enc) data cur1 insts1 = Inr (instances enc', vp, cur')
     \<and> velocity_pointer enc' = vp"
proof -
  have s: "single_dword_buffer (enc\<lparr>recip_dt := x, memo_period := y\<rparr>) = single_dword_buffer enc"
    for x y by (simp add: single_dword_buffer_def num_instances_def)
  from assms show ?thesis
    by (auto simp: process_read_def num_instances_def Let_def s split: if_splits sum.splits)
qed

lemma same_position: "j' div 8 = j div 8 \<Longrightarrow> j' mod 8 = j mod 8 \<Longrightarrow> j' = j" for j j' :: nat
  by (metis div_mult_mod_eq)

lemma prepare_write_register_bits:
  assumes "instances enc \<noteq> []"
    and "cur + 2 * single_dword_buffer enc \<le> length data"
    and "j < single_dword_buffer enc * 8"
  shows "\<exists>data'. prepare_write enc data cur = Inr (data', cur + 2 * single_dword_buffer enc)
     \<and> length data' = length data
     \<and> register_bit data' cur (single_dword_buffer enc) j
         = (register_bit data cur (single_dword_buffer enc) j
              \<or> (Suc j < num_instances enc \<and> index_enable (instances enc ! j)))
     \<and> register_bit data' (cur + single_dword_buffer enc) (single_dword_buffer enc) j
         = (register_bit data (cur + single_dword_buffer enc) (single_dword_buffer enc) j
              \<or> (Suc j < num_instances enc \<and> index_pulse (instances enc ! j)))"
proof -
  define s where "s = single_dword_buffer enc"
  define q where "q = j div 8"
  from assms(3) have q: "q < s" unfolding q_def s_def by (simp add: less_mult_imp_div_less)
  have le: "num_instances enc \<le> s * 8"
    unfolding s_def by (rule num_instances_le_register)
  from prepare_write_char [OF assms(1,2)] obtain data' where
    r: "prepare_write enc data cur = Inr (data', cur + 2 * s)" and
    l: "length data' = length data" and
    v: "\<forall>p b. p < length data \<longrightarrow>
          bit (data' ! p) b = (bit (data ! p) b
            \<or> (\<exists>j. Suc j < num_instances enc
                  \<and> p + j div 8 + 1 = cur + s \<and> b = j mod 8
                  \<and> index_enable (instances enc ! j))
            \<or> (\<exists>j. Suc j < num_instances enc
                  \<and> p + j div 8 + 1 = cur + 2 * s \<and> b = j mod 8
                  \<and> index_pulse (instances enc ! j)))"
    unfolding s_def by blast
  have far: "\<not> (Suc k < num_instances enc \<and> p + k div 8 + 1 = cur + 2 * s)"
    if "p + q + 1 = cur + s" for k p
  proof
    assume a: "Suc k < num_instances enc \<and> p + k div 8 + 1 = cur + 2 * s"
    with le have "k < s * 8" by simp
    then have "k div 8 < s" by (simp add: less_mult_imp_div_less)
    with a that show False by simp
  qed
  have near: "\<not> (p + k div 8 + 1 = cur + s)" if "p + q + 1 = cur + 2 * s" for k p
    using that q by simp
  have same: "(\<exists>k. Suc k < num_instances enc \<and> p + k div 8 + 1 = e \<and> j mod 8 = k mod 8
                  \<and> pin (instances enc ! k))
        = (Suc j < num_instances enc \<and> pin (instances enc ! j))"
    if "p + q + 1 = e" for p e pin
  proof -
    have "k = j" if a: "p + k div 8 + 1 = e" and b: "j mod 8 = k mod 8" for k
    proof -
      define kq where "kq = k div 8"
      from a have "p + kq + 1 = e" unfolding kq_def .
      with \<open>p + q + 1 = e\<close> have "kq = q" by simp
      then have "k div 8 = j div 8" by (simp only: kq_def q_def)
      then show ?thesis using b [symmetric] by (rule same_position)
    qed
    moreover have "p + j div 8 + 1 = e" using that unfolding q_def .
    ultimately show ?thesis by blast
  qed
  have p1: "(cur + s - 1 - q) + q + 1 = cur + s" using q by simp
  have p2: "(cur + s + s - 1 - q) + q + 1 = cur + 2 * s" using q by simp
  have b1: "cur + s - 1 - q < length data" using assms(2) q by (simp add: s_def)
  have b2: "cur + s + s - 1 - q < length data" using assms(2) q by (simp add: s_def)
  from v b1 have "bit (data' ! (cur + s - 1 - q)) (j mod 8)
      = (bit (data ! (cur + s - 1 - q)) (j mod 8)
            \<or> (\<exists>k. Suc k < num_instances enc
                  \<and> (cur + s - 1 - q) + k div 8 + 1 = cur + s \<and> j mod 8 = k mod 8
                  \<and> index_enable (instances enc ! k))
            \<or> (\<exists>k. Suc k < num_instances enc
                  \<and> (cur + s - 1 - q) + k div 8 + 1 = cur + 2 * s \<and> j mod 8 = k mod 8
                  \<and> index_pulse (instances enc ! k)))"
    by blast
  then have f1: "bit (data' ! (cur + s - 1 - q)) (j mod 8)
      = (bit (data ! (cur + s - 1 - q)) (j mod 8)
           \<or> (Suc j < num_instances enc \<and> index_enable (instances enc ! j)))"
    unfolding same [OF p1, of index_enable] using far [OF p1] by blast
  from v b2 have "bit (data' ! (cur + s + s - 1 - q)) (j mod 8)
      = (bit (data ! (cur + s + s - 1 - q)) (j mod 8)
            \<or> (\<exists>k. Suc k < num_instances enc
                  \<and> (cur + s + s - 1 - q) + k div 8 + 1 = cur + s \<and> j mod 8 = k mod 8
                  \<and> index_enable (instances enc ! k))
            \<or> (\<exists>k. Suc k < num_instances enc
                  \<and> (cur + s + s - 1 - q) + k div 8 + 1 = cur + 2 * s \<and> j mod 8 = k mod 8
                  \<and> index_pulse (instances enc ! k)))"
    by blast
  then have f2: "bit (data' ! (cur + s + s - 1 - q)) (j mod 8)
      = (bit (data ! (cur + s + s - 1 - q)) (j mod 8)
           \<or> (Suc j < num_instances enc \<and> index_pulse (instances enc ! j)))"
    unfolding same [OF p2, of index_pulse] using near [OF p2] by blast
  show ?thesis
    unfolding s_def [symmetric] register_bit_def q_def [symmetric]
    using r l f1 f2 by blast
qed

lemma process_read_flags:
  assumes "process_read h enc data cur period = Inr (enc', cur')"
    and "j < num_instances enc"
  shows "num_instances enc' = num_instances enc"
    and "Suc j < num_instances enc \<Longrightarrow>
           index_pulse (instances enc' ! j) = register_bit data cur (single_dword_buffer enc) j"
    and "Suc j < num_instances enc \<Longrightarrow>
           index_enable (instances enc' ! j)
             = (index_enable (instances enc ! j)
                  \<and> \<not> register_bit data cur (single_dword_buffer enc) j)"
    and "Suc j = num_instances enc \<Longrightarrow>
           index_pulse (instances enc' ! j) = index_pulse (instances enc ! j)
           \<and> index_enable (instances enc' ! j) = index_enable (instances enc ! j)"
proof -
  define s where "s = single_dword_buffer enc"
  define insts where "insts = instances enc"
  from assms(2) have ne: "instances enc \<noteq> []" and j: "j < length insts"
    by (auto simp: num_instances_def insts_def)
  from process_read_Inr [OF assms(1) ne] obtain insts1 cur1 rdt where
    lp: "index_pulse_loop (s * 8) 0x80 cur data insts = Inr (insts1, cur1)" and
    pi: "process_instances h rdt (velocity_pointer enc) data cur1 insts1
           = Inr (instances enc', velocity_pointer enc', cur')"
    unfolding s_def insts_def by blast
  from index_pulse_loop_frame [OF lp] have
    l1: "length insts1 = length insts" and
    fr: "\<forall>j. \<not> (j < s * 8 \<and> Suc j < length insts) \<longrightarrow> insts1 ! j = insts ! j"
    by blast+
  from index_pulse_loop_result [OF lp mask_at_start] have
    v: "\<forall>j. j < s * 8 \<longrightarrow> Suc j < length insts \<longrightarrow>
          insts1 ! j = set_index_pulse (bit (data ! (cur + s - 1 - j div 8)) (j mod 8)) (insts ! j)"
    by simp
  from process_instances_nth [OF pi] have
    l2: "length (instances enc') = length insts1" and
    pj: "\<forall>j < length insts1. \<exists>vpj vpj'.
           process_instance h rdt vpj data (cur1 + j * sizeof_read_data) (insts1 ! j)
             = Inr (instances enc' ! j, vpj', cur1 + Suc j * sizeof_read_data)"
    by blast+
  from pj j l1 obtain vpj vpj' where
    "process_instance h rdt vpj data (cur1 + j * sizeof_read_data) (insts1 ! j)
       = Inr (instances enc' ! j, vpj', cur1 + Suc j * sizeof_read_data)"
    by auto
  from process_instance_flags [OF this] have
    fl: "index_pulse (instances enc' ! j) = index_pulse (insts1 ! j)"
        "index_enable (instances enc' ! j) = index_enable (insts1 ! j)"
    by simp_all
  show "num_instances enc' = num_instances enc"
    using l1 l2 by (simp add: num_instances_def insts_def)
  have le: "length insts \<le> s * 8"
    using num_instances_le_register [of enc] by (simp add: num_instances_def s_def insts_def)
  {
    assume a: "Suc j < num_instances enc"
    then have "Suc j < length insts" by (simp add: num_instances_def insts_def)
    moreover with le have "j < s * 8" by simp
    ultimately have "insts1 ! j
        = set_index_pulse (register_bit data cur s j) (insts ! j)"
      using v unfolding register_bit_def by blast
    then show "index_pulse (instances enc' ! j) = register_bit data cur (single_dword_buffer enc) j"
      and "index_enable (instances enc' ! j)
             = (index_enable (instances enc ! j)
                  \<and> \<not> register_bit data cur (single_dword_buffer enc) j)"
      using fl unfolding s_def [symmetric] insts_def [symmetric]
      by (simp_all add: set_index_pulse_def Let_def)
  }
  {
    assume "Suc j = num_instances enc"
    then have "\<not> (j < s * 8 \<and> Suc j < length insts)" by (simp add: num_instances_def insts_def)
    with fr have "insts1 ! j = insts ! j" by blast
    with fl show "index_pulse (instances enc' ! j) = index_pulse (instances enc ! j)
           \<and> index_enable (instances enc' ! j) = index_enable (instances enc ! j)"
      by (simp add: insts_def)
  }
qed

subsection \<open>The place of a channel in the shared registers\<close>

text \<open>
  C1, as the source has it. The loops walk every byte of a register from mask
  \<open>0x80\<close> down to \<open>0x01\<close>, with a counter \<open>i\<close> that runs down from the number of
  bits of the register, and the bit met at counter \<open>i\<close> belongs to channel \<open>i - 1\<close>. So
  a channel \<open>j\<close> the loops reach (\<open>j + 1 < num_instances\<close>) has bit \<open>j\<close> of the register
  read as one big-endian number: channel 0 sits on the least significant bit of the
  last byte, not on the most significant bit of the block. The place is the same for
  the index pulse read by \<open>process_read\<close> and for the index enable and the index pulse
  written by \<open>prepare_write\<close>, which ORs the flag into the bit.
\<close>

theorem channel_register_bit:
  assumes "Suc j < num_instances enc"
    and "process_read h enc rdata rcur period = Inr (enc', rcur')"
    and "wcur + 2 * single_dword_buffer enc \<le> length wdata"
  shows "index_pulse (instances enc' ! j)
           = register_bit rdata rcur (single_dword_buffer enc) j
     \<and> (\<exists>wdata'. prepare_write enc wdata wcur
                    = Inr (wdata', wcur + 2 * single_dword_buffer enc)
          \<and> register_bit wdata' wcur (single_dword_buffer enc) j
              = (register_bit wdata wcur (single_dword_buffer enc) j
                   \<or> index_enable (instances enc ! j))
          \<and> register_bit wdata' (wcur + single_dword_buffer enc) (single_dword_buffer enc) j
              = (register_bit wdata (wcur + single_dword_buffer enc)
                     (single_dword_buffer enc) j
                   \<or> index_pulse (instances enc ! j)))"
proof -
  from assms(1) have j: "j < num_instances enc" by simp
  from assms(1) have ne: "instances enc \<noteq> []" by (auto simp: num_instances_def)
  from assms(1) num_instances_le_register [of enc]
  have lt: "j < single_dword_buffer enc * 8" by simp
  from process_read_flags(2) [OF assms(2) j assms(1)]
  have "index_pulse (instances enc' ! j) = register_bit rdata rcur (single_dword_buffer enc) j" .
  moreover from prepare_write_register_bits [OF ne assms(3) lt] assms(1)
  have "\<exists>wdata'. prepare_write enc wdata wcur
                    = Inr (wdata', wcur + 2 * single_dword_buffer enc)
          \<and> register_bit wdata' wcur (single_dword_buffer enc) j
              = (register_bit wdata wcur (single_dword_buffer enc) j
                   \<or> index_enable (instances enc ! j))
          \<and> register_bit wdata' (wcur + single_dword_buffer enc) (single_dword_buffer enc) j
              = (register_bit wdata (wcur + single_dword_buffer enc)
                     (single_dword_buffer enc) j
                   \<or> index_pulse (instances enc ! j))"
    by auto
  ultimately show ?thesis by blast
qed

text \<open>
  Witness for C1: two encoders, the first with its index enable set; the read buffer
  has channel 0's bit set, the write buffer is cleared.
\<close>

theorem channel_register_bit_witness:
  "Suc 0 < num_instances
      (zeroed_encoder [(zeroed_instance 8)\<lparr>index_enable := True\<rparr>, zeroed_instance 8])
   \<and> process_read example_header
        (zeroed_encoder [(zeroed_instance 8)\<lparr>index_enable := True\<rparr>, zeroed_instance 8])
        [0, 0, 0, 1, 0, 0, 0, 8, 0, 0, 0, 0] 0 1000000
       = Inr (\<lparr>instances =
                [(zeroed_instance 8)\<lparr>raw_counts := 8, counts := 2, index_pulse := True\<rparr>,
                 zeroed_instance 8],
               memo_period = 1000000, velocity_pointer = 1, recip_dt = 1000\<rparr>, 12)
   \<and> index_pulse ((zeroed_instance 8)\<lparr>raw_counts := 8, counts := 2, index_pulse := True\<rparr>)
       = register_bit [0, 0, 0, 1, 0, 0, 0, 8, 0, 0, 0, 0] 0 4 0
   \<and> prepare_write
        (zeroed_encoder [(zeroed_instance 8)\<lparr>index_enable := True\<rparr>, zeroed_instance 8])
        [0, 0, 0, 0, 0, 0, 0, 0] 0 = Inr ([0, 0, 0, 1, 0, 0, 0, 0], 8)
   \<and> register_bit [0, 0, 0, 1, 0, 0, 0, 0] 0 4 0"
proof -
  let ?enc = "zeroed_encoder [(zeroed_instance 8)\<lparr>index_enable := True\<rparr>, zeroed_instance 8]"
  let ?enc' = "\<lparr>instances =
                [(zeroed_instance 8)\<lparr>raw_counts := 8, counts := 2, index_pulse := True\<rparr>,
                 zeroed_instance 8],
               memo_period = 1000000, velocity_pointer = 1, recip_dt = 1000\<rparr>"
  have a: "Suc 0 < num_instances ?enc" by code_simp
  have b: "process_read example_header ?enc [0, 0, 0, 1, 0, 0, 0, 8, 0, 0, 0, 0] 0 1000000
             = Inr (?enc', 12)"
    by code_simp
  have c: "0 + 2 * single_dword_buffer ?enc \<le> length [0 :: byte, 0, 0, 0, 0, 0, 0, 0]"
    by code_simp
  have d: "prepare_write ?enc [0, 0, 0, 0, 0, 0, 0, 0] 0 = Inr ([0, 0, 0, 1, 0, 0, 0, 0], 8)"
    by code_simp
  have e: "single_dword_buffer ?enc = 4" by code_simp
  have f: "index_enable (instances ?enc ! 0)" by code_simp
  from channel_register_bit [OF a b c] a b d f show ?thesis
    by (simp add: e)
qed

text \<open>
  Counterexample to C1 as stated: with the index enable of channel 0 set, the bit
  written is the last one of the register and the most significant bit of the
  block stays clear.
\<close>

theorem channel_zero_not_msb:
  "prepare_write
     (zeroed_encoder [(zeroed_instance 8)\<lparr>index_enable := True\<rparr>, zeroed_instance 8])
     [0, 0, 0, 0, 0, 0, 0, 0] 0 = Inr ([0, 0, 0, 1, 0, 0, 0, 0], 8)
   \<and> \<not> spec_register_bit [0, 0, 0, 1, 0, 0, 0, 0] 0 0"
  by code_simp

text \<open>
  C4. The loops guard with \<open>i < num_instances\<close> and address instance \<open>i - 1\<close>, so
  they never reach the last channel: a pass of \<open>process_read\<close> leaves its index pulse
  and its index enable as they were, and what \<open>prepare_write\<close> produces does not
  depend on the last channel at all.
\<close>

theorem last_channel_untouched:
  assumes "process_read h enc data cur period = Inr (enc', cur')"
    and "instances enc \<noteq> []"
  shows "instances enc' \<noteq> []
     \<and> index_pulse (last (instances enc')) = index_pulse (last (instances enc))
     \<and> index_enable (last (instances enc')) = index_enable (last (instances enc))
     \<and> prepare_write (enc\<lparr>instances := butlast (instances enc) @ [x]\<rparr>) wdata wcur
         = prepare_write enc wdata wcur"
proof -
  define n where "n = num_instances enc"
  from assms(2) have n: "n - 1 < num_instances enc" "Suc (n - 1) = num_instances enc"
    by (simp_all add: n_def num_instances_def)
  from process_read_flags(1) [OF assms(1) n(1)]
  have l: "length (instances enc') = length (instances enc)"
    by (simp add: num_instances_def)
  with assms(2) have ne: "instances enc' \<noteq> []" by auto
  from process_read_flags(4) [OF assms(1) n]
  have "index_pulse (instances enc' ! (n - 1)) = index_pulse (instances enc ! (n - 1))
      \<and> index_enable (instances enc' ! (n - 1)) = index_enable (instances enc ! (n - 1))" .
  then have fl: "index_pulse (last (instances enc')) = index_pulse (last (instances enc))
      \<and> index_enable (last (instances enc')) = index_enable (last (instances enc))"
    using assms(2) ne l by (simp add: last_conv_nth n_def num_instances_def)
  define insts' where "insts' = butlast (instances enc) @ [x]"
  have l': "length insts' = length (instances enc)"
    using assms(2) by (simp add: insts'_def)
  have nth: "insts' ! j = instances enc ! j" if "Suc j < length (instances enc)" for j
    using that by (simp add: insts'_def nth_append nth_butlast)
  have s: "single_dword_buffer (enc\<lparr>instances := insts'\<rparr>) = single_dword_buffer enc"
    by (simp add: single_dword_buffer_def num_instances_def l')
  have c: "write_flag_loop pin i msk c d insts' = write_flag_loop pin i msk c d (instances enc)"
    for pin i msk c d
    by (rule write_flag_loop_cong) (simp_all add: l' nth)
  have "prepare_write (enc\<lparr>instances := insts'\<rparr>) wdata wcur = prepare_write enc wdata wcur"
    by (simp add: prepare_write_def s c num_instances_def l' split: sum.splits prod.splits)
  with ne fl show ?thesis by (simp add: insts'_def)
qed

text \<open>
  Witness for C4: the register read has every bit set, and the last of the two
  encoders keeps its flags.
\<close>

theorem last_channel_untouched_witness:
  "process_read example_header
      (zeroed_encoder
         [zeroed_instance 8, (zeroed_instance 8)\<lparr>index_enable := True, index_pulse := True\<rparr>])
      [0xFF, 0xFF, 0xFF, 0xFF, 0, 0, 0, 8, 0, 0, 0, 0] 0 1000000
     = Inr (\<lparr>instances =
              [(zeroed_instance 8)\<lparr>raw_counts := 8, counts := 2, index_pulse := True\<rparr>,
               (zeroed_instance 8)\<lparr>index_enable := True, index_pulse := True\<rparr>],
             memo_period = 1000000, velocity_pointer = 0, recip_dt = 1000\<rparr>, 12)
   \<and> prepare_write
        (zeroed_encoder [zeroed_instance 8, zeroed_instance 8]) [0, 0, 0, 0, 0, 0, 0, 0] 0
       = prepare_write
           (zeroed_encoder
              [zeroed_instance 8,
               (zeroed_instance 8)\<lparr>index_enable := True, index_pulse := True\<rparr>])
           [0, 0, 0, 0, 0, 0, 0, 0] 0"
proof -
  let ?enc = "zeroed_encoder
         [zeroed_instance 8, (zeroed_instance 8)\<lparr>index_enable := True, index_pulse := True\<rparr>]"
  let ?enc' = "\<lparr>instances =
              [(zeroed_instance 8)\<lparr>raw_counts := 8, counts := 2, index_pulse := True\<rparr>,
               (zeroed_instance 8)\<lparr>index_enable := True, index_pulse := True\<rparr>],
             memo_period = 1000000, velocity_pointer = 0, recip_dt = 1000\<rparr>"
  have a: "process_read example_header ?enc
             [0xFF, 0xFF, 0xFF, 0xFF, 0, 0, 0, 8, 0, 0, 0, 0] 0 1000000 = Inr (?enc', 12)"
    by code_simp
  have b: "instances ?enc \<noteq> []" by code_simp
  have c: "?enc\<lparr>instances := butlast (instances ?enc) @ [zeroed_instance 8]\<rparr>
             = zeroed_encoder [zeroed_instance 8, zeroed_instance 8]"
    by (simp add: zeroed_encoder_def)
  from last_channel_untouched [OF a b, of "zeroed_instance 8" "[0, 0, 0, 0, 0, 0, 0, 0]" 0] a
  show ?thesis unfolding c by simp
qed

subsection \<open>Padding and round trip\<close>

text \<open>
  C6, as the source has it. \<open>prepare_write\<close> only ORs bits into the buffer. It writes
  nothing at a padding position (a bit \<open>j\<close> of a register with
  \<open>num_instances \<le> j\<close>): after the encoding each padding bit of the two registers is
  what it was before, so it is zero when the caller has cleared the buffer.
\<close>

theorem padding_bits_kept:
  assumes "instances enc \<noteq> []"
    and "cur + 2 * single_dword_buffer enc \<le> length data"
    and "num_instances enc \<le> j"
    and "j < single_dword_buffer enc * 8"
  shows "\<exists>data'. prepare_write enc data cur = Inr (data', cur + 2 * single_dword_buffer enc)
     \<and> register_bit data' cur (single_dword_buffer enc) j
         = register_bit data cur (single_dword_buffer enc) j
     \<and> register_bit data' (cur + single_dword_buffer enc) (single_dword_buffer enc) j
         = register_bit data (cur + single_dword_buffer enc) (single_dword_buffer enc) j"
  using prepare_write_register_bits [OF assms(1,2,4)] assms(3) by auto

text \<open>Witness for C6: two encoders, bit 31 of the registers, a buffer of set bits.\<close>

theorem padding_bits_kept_witness:
  "instances (zeroed_encoder [zeroed_instance 8, zeroed_instance 8]) \<noteq> []
   \<and> 0 + 2 * single_dword_buffer (zeroed_encoder [zeroed_instance 8, zeroed_instance 8])
       \<le> length [0xFF :: byte, 0xFF, 0xFF, 0xFF, 0xFF, 0xFF, 0xFF, 0xFF]
   \<and> num_instances (zeroed_encoder [zeroed_instance 8, zeroed_instance 8]) \<le> 31
   \<and> 31 < single_dword_buffer (zeroed_encoder [zeroed_instance 8, zeroed_instance 8]) * 8
   \<and> (\<exists>data'.
         prepare_write (zeroed_encoder [zeroed_instance 8, zeroed_instance 8])
           [0xFF, 0xFF, 0xFF, 0xFF, 0xFF, 0xFF, 0xFF, 0xFF] 0 = Inr (data', 8)
         \<and> register_bit data' 0 4 31 \<and> register_bit data' 4 4 31)"
proof -
  let ?enc = "zeroed_encoder [zeroed_instance 8, zeroed_instance 8]"
  let ?data = "[0xFF :: byte, 0xFF, 0xFF, 0xFF, 0xFF, 0xFF, 0xFF, 0xFF]"
  have a: "instances ?enc \<noteq> []" by code_simp
  have b: "0 + 2 * single_dword_buffer ?enc \<le> length ?data" by code_simp
  have c: "num_instances ?enc \<le> 31" by code_simp
  have d: "31 < single_dword_buffer ?enc * 8" by code_simp
  have e: "single_dword_buffer ?enc = 4" by code_simp
  have f: "register_bit ?data 0 4 31" "register_bit ?data 4 4 31" by code_simp+
  from padding_bits_kept [OF a b c d] a b c d f show ?thesis
    by (simp add: e)
qed

text \<open>
  Counterexample to C6 as stated: on a buffer whose bits are all set, the encoding
  for two encoders with clear flags leaves every bit set, the padding included.
\<close>

theorem padding_bits_not_cleared:
  "prepare_write (zeroed_encoder [zeroed_instance 8, zeroed_instance 8])
     [0xFF, 0xFF, 0xFF, 0xFF, 0xFF, 0xFF, 0xFF, 0xFF] 0
     = Inr ([0xFF, 0xFF, 0xFF, 0xFF, 0xFF, 0xFF, 0xFF, 0xFF], 8)
   \<and> register_bit [0xFF, 0xFF, 0xFF, 0xFF, 0xFF, 0xFF, 0xFF, 0xFF] 0 4 31
   \<and> spec_register_bit [0xFF, 0xFF, 0xFF, 0xFF, 0xFF, 0xFF, 0xFF, 0xFF] 0 31"
  by code_simp

text \<open>
  C3. The round trip is claimed lossless for 1, 31, 32, 33 and 64 channels. For one
  channel whose flags are set, the encoding into a cleared buffer writes no bit, and
  the decoding of these bytes leaves the index pulse of the channel clear: the flag
  of the last channel is lost, since both loops stop one channel short.
\<close>

theorem single_channel_round_trip_lost:
  "prepare_write
     (zeroed_encoder [(zeroed_instance 8)\<lparr>index_enable := True, index_pulse := True\<rparr>])
     [0, 0, 0, 0, 0, 0, 0, 0] 0 = Inr ([0, 0, 0, 0, 0, 0, 0, 0], 8)
   \<and> index_pulse_loop 32 0x80 0 [0, 0, 0, 0] [zeroed_instance 8]
       = Inr ([zeroed_instance 8], 4)
   \<and> \<not> index_pulse (zeroed_instance 8)"
  by code_simp

subsection \<open>The fields of an instance after a pass\<close>

lemma update_position_scale_fields [simp]:
  "raw_counts (update_position_scale inst) = raw_counts inst"
  "counts (update_position_scale inst) = counts inst"
  "reset (update_position_scale inst) = reset inst"
  "position (update_position_scale inst) = position inst"
  "velocity (update_position_scale inst) = velocity inst"
  "velocity_rpm (update_position_scale inst) = velocity_rpm inst"
  "overflow_occurred (update_position_scale inst) = overflow_occurred inst"
  "x4_mode (update_position_scale inst) = x4_mode inst"
  "memo_position_reset (update_position_scale inst) = memo_position_reset inst"
  "memo_velocity (update_position_scale inst) = memo_velocity inst"
  by (simp_all add: update_position_scale_def Let_def)

lemma read_counts_fields [simp]:
  "raw_counts (fst (read_counts raw inst)) = raw"
  "reset (fst (read_counts raw inst)) = False"
  "memo_position_reset (fst (read_counts raw inst))
     = (if reset inst then (if x4_mode inst then raw else div4 raw) else memo_position_reset inst)"
  "counts (fst (read_counts raw inst))
     = (if x4_mode inst then raw else div4 raw) - memo_position_reset (fst (read_counts raw inst))"
  "overflow_occurred (fst (read_counts raw inst)) = (overflow_occurred inst \<and> \<not> reset inst)"
  "snd (read_counts raw inst) = (if reset inst then raw else raw_counts inst)"
  "position (fst (read_counts raw inst)) = position inst"
  "velocity (fst (read_counts raw inst)) = velocity inst"
  "velocity_rpm (fst (read_counts raw inst)) = velocity_rpm inst"
  "x4_mode (fst (read_counts raw inst)) = x4_mode inst"
  "memo_velocity (fst (read_counts raw inst)) = memo_velocity inst"
  "position_scale (fst (read_counts raw inst)) = position_scale inst"
  "position_scale_recip (fst (read_counts raw inst)) = position_scale_recip inst"
  "memo_position_scale (fst (read_counts raw inst)) = memo_position_scale inst"
  by (simp_all add: read_counts_def Let_def)

lemma update_position_fields [simp]:
  "raw_counts (update_position co inst) = raw_counts inst"
  "counts (update_position co inst) = counts inst"
  "reset (update_position co inst) = reset inst"
  "memo_position_reset (update_position co inst) = memo_position_reset inst"
  "velocity (update_position co inst) = velocity inst"
  "velocity_rpm (update_position co inst) = velocity_rpm inst"
  "x4_mode (update_position co inst) = x4_mode inst"
  "memo_velocity (update_position co inst) = memo_velocity inst"
  "position_scale (update_position co inst) = position_scale inst"
  "position_scale_recip (update_position co inst) = position_scale_recip inst"
  "memo_position_scale (update_position co inst) = memo_position_scale inst"
  by (simp_all add: update_position_def Let_def split: prod.splits)

lemma update_position_overflow:
  "overflow_occurred (update_position co inst)
     = (\<not> index_pulse inst
          \<and> (overflow_occurred inst
               \<or> fst (roll_over (x4_mode inst) (sint (raw_counts inst) - sint co))))"
  by (auto simp: update_position_def Let_def split: prod.splits)

lemma update_position_position:
  "position (update_position co inst)
     = (if index_pulse inst \<or> \<not> overflow_occurred (update_position co inst)
        then real_of_int (sint (counts inst)) * position_scale_recip inst
        else position inst
               + real_of_int (snd (roll_over (x4_mode inst) (sint (raw_counts inst) - sint co)))
                   * position_scale_recip inst)"
  by (auto simp: update_position_def Let_def split: prod.splits)

lemma update_velocity_index_pulse:
  "index_pulse inst \<Longrightarrow> update_velocity h rdt vp po inst = Inr (inst, vp)"
  by (simp add: update_velocity_def)

lemma update_velocity_fields:
  assumes "update_velocity h rdt vp po inst = Inr (inst', vp')"
  shows "raw_counts inst' = raw_counts inst"
    and "counts inst' = counts inst"
    and "reset inst' = reset inst"
    and "position inst' = position inst"
    and "overflow_occurred inst' = overflow_occurred inst"
    and "x4_mode inst' = x4_mode inst"
    and "memo_position_reset inst' = memo_position_reset inst"
    and "position_scale inst' = position_scale inst"
    and "position_scale_recip inst' = position_scale_recip inst"
    and "memo_position_scale inst' = memo_position_scale inst"
  using assms by (auto simp: update_velocity_def Let_def split: if_splits)

lemma update_velocity_no_pulse:
  assumes "update_velocity h rdt vp po inst = Inr (inst', vp')" and "\<not> index_pulse inst"
  shows "vp < length (memo_velocity inst)"
    and "POSITION_AVERAGE_SIZE h \<le> length (memo_velocity inst)"
    and "memo_velocity inst' = (memo_velocity inst)[vp := (position inst - po) * rdt]"
    and "velocity inst' = fold (\<lambda>v a. to_float h (a + v))
           (take (POSITION_AVERAGE_SIZE h) (memo_velocity inst')) 0 * POSITION_AVERAGE_RECIP h"
    and "velocity_rpm inst' = velocity inst' * 60"
    and "vp' = (if vp \<ge> POSITION_AVERAGE_SIZE h then 0 else Suc vp)"
  using assms by (auto simp: update_velocity_def Let_def split: if_splits)

text \<open>What a pass over one instance leaves in its fields.\<close>

lemma process_instance_fields:
  assumes "process_instance h rdt vp data cur inst = Inr (inst', vp', cur')"
  shows "raw_counts inst' = be32toh data cur"
    and "reset inst' = False"
    and "x4_mode inst' = x4_mode inst"
    and "memo_position_reset inst'
           = (if reset inst then (if x4_mode inst then raw_counts inst' else div4 (raw_counts inst'))
              else memo_position_reset inst)"
    and "counts inst' = (if x4_mode inst then raw_counts inst' else div4 (raw_counts inst'))
                          - memo_position_reset inst'"
    and "position_scale inst' = position_scale (update_position_scale inst)"
    and "position_scale_recip inst' = position_scale_recip (update_position_scale inst)"
    and "memo_position_scale inst' = memo_position_scale (update_position_scale inst)"
    and "overflow_occurred inst'
           = (\<not> index_pulse inst
                \<and> ((overflow_occurred inst \<and> \<not> reset inst)
                     \<or> fst (roll_over (x4_mode inst)
                              (sint (raw_counts inst')
                                 - sint (if reset inst then raw_counts inst' else raw_counts inst)))))"
    and "position inst'
           = (if index_pulse inst \<or> \<not> overflow_occurred inst'
              then real_of_int (sint (counts inst')) * position_scale_recip inst'
              else position inst
                     + real_of_int (tick_difference inst inst') * position_scale_recip inst')"
proof -
  define s where "s = update_position_scale inst"
  define r where "r = read_counts (be32toh data cur) s"
  define u where "u = update_position (snd r) (fst r)"
  from process_instance_Inr [OF assms]
  have v: "update_velocity h rdt vp (to_float h (position (fst r))) u = Inr (inst', vp')"
    unfolding s_def r_def u_def by simp
  note f = update_velocity_fields [OF v]
  show raw: "raw_counts inst' = be32toh data cur"
    unfolding f by (simp add: u_def r_def)
  show "reset inst' = False"
    unfolding f by (simp add: u_def r_def)
  show "x4_mode inst' = x4_mode inst"
    unfolding f by (simp add: u_def r_def s_def)
  show mpr: "memo_position_reset inst'
           = (if reset inst then (if x4_mode inst then raw_counts inst' else div4 (raw_counts inst'))
              else memo_position_reset inst)"
    unfolding f raw by (simp add: u_def r_def s_def)
  show cnt: "counts inst' = (if x4_mode inst then raw_counts inst' else div4 (raw_counts inst'))
                          - memo_position_reset inst'"
    unfolding f raw by (simp add: u_def r_def s_def)
  show "position_scale inst' = position_scale (update_position_scale inst)"
    unfolding f by (simp add: u_def r_def s_def)
  show rcp: "position_scale_recip inst' = position_scale_recip (update_position_scale inst)"
    unfolding f by (simp add: u_def r_def s_def)
  show "memo_position_scale inst' = memo_position_scale (update_position_scale inst)"
    unfolding f by (simp add: u_def r_def s_def)
  show ovf: "overflow_occurred inst'
           = (\<not> index_pulse inst
                \<and> ((overflow_occurred inst \<and> \<not> reset inst)
                     \<or> fst (roll_over (x4_mode inst)
                              (sint (raw_counts inst')
                                 - sint (if reset inst then raw_counts inst' else raw_counts inst)))))"
    unfolding f raw by (simp add: u_def update_position_overflow r_def s_def)
  have ou: "overflow_occurred u = overflow_occurred inst'" by (simp add: f)
  have "position inst' = position u" by (simp add: f)
  also have "\<dots> = (if index_pulse (fst r) \<or> \<not> overflow_occurred u
        then real_of_int (sint (counts (fst r))) * position_scale_recip (fst r)
        else position (fst r)
               + real_of_int (snd (roll_over (x4_mode (fst r))
                                     (sint (raw_counts (fst r)) - sint (snd r))))
                   * position_scale_recip (fst r))"
    unfolding u_def by (rule update_position_position)
  also have "counts (fst r) = counts inst'" by (simp add: f u_def)
  also have "position_scale_recip (fst r) = position_scale_recip inst'"
    by (simp add: f u_def)
  also have "index_pulse (fst r) = index_pulse inst" by (simp add: r_def s_def)
  also have "position (fst r) = position inst" by (simp add: r_def s_def)
  also have "snd (roll_over (x4_mode (fst r)) (sint (raw_counts (fst r)) - sint (snd r)))
      = tick_difference inst inst'"
    unfolding tick_difference_def raw by (simp add: r_def s_def)
  finally show "position inst'
           = (if index_pulse inst \<or> \<not> overflow_occurred inst'
              then real_of_int (sint (counts inst')) * position_scale_recip inst'
              else position inst
                     + real_of_int (tick_difference inst inst') * position_scale_recip inst')"
    unfolding ou .
qed

lemma process_instance_velocity:
  assumes "process_instance h rdt vp data cur inst = Inr (inst', vp', cur')"
  shows "index_pulse inst \<Longrightarrow>
           memo_velocity inst' = memo_velocity inst \<and> velocity inst' = velocity inst
           \<and> velocity_rpm inst' = velocity_rpm inst \<and> vp' = vp"
    and "\<not> index_pulse inst \<Longrightarrow>
           vp < length (memo_velocity inst)
           \<and> POSITION_AVERAGE_SIZE h \<le> length (memo_velocity inst)
           \<and> memo_velocity inst'
               = (memo_velocity inst)[vp := (position inst' - to_float h (position inst)) * rdt]
           \<and> velocity inst' = fold (\<lambda>v a. to_float h (a + v))
                 (take (POSITION_AVERAGE_SIZE h) (memo_velocity inst')) 0
                 * POSITION_AVERAGE_RECIP h
           \<and> velocity_rpm inst' = velocity inst' * 60
           \<and> vp' = (if vp \<ge> POSITION_AVERAGE_SIZE h then 0 else Suc vp)"
proof -
  define s where "s = update_position_scale inst"
  define r where "r = read_counts (be32toh data cur) s"
  define u where "u = update_position (snd r) (fst r)"
  from process_instance_Inr [OF assms]
  have v: "update_velocity h rdt vp (to_float h (position (fst r))) u = Inr (inst', vp')"
    unfolding s_def r_def u_def by simp
  have ip: "index_pulse u = index_pulse inst" by (simp add: u_def r_def s_def)
  have mv: "memo_velocity u = memo_velocity inst" "velocity u = velocity inst"
    "velocity_rpm u = velocity_rpm inst" "position (fst r) = position inst"
    by (simp_all add: u_def r_def s_def)
  have pu: "position u = position inst'" using update_velocity_fields(4) [OF v] by simp
  {
    assume "index_pulse inst"
    with v ip have "inst' = u \<and> vp' = vp" by (simp add: update_velocity_index_pulse)
    with mv show "memo_velocity inst' = memo_velocity inst \<and> velocity inst' = velocity inst
           \<and> velocity_rpm inst' = velocity_rpm inst \<and> vp' = vp"
      by simp
  }
  {
    assume "\<not> index_pulse inst"
    with ip have np: "\<not> index_pulse u" by simp
    from update_velocity_no_pulse [OF v np]
    show "vp < length (memo_velocity inst)
           \<and> POSITION_AVERAGE_SIZE h \<le> length (memo_velocity inst)
           \<and> memo_velocity inst'
               = (memo_velocity inst)[vp := (position inst' - to_float h (position inst)) * rdt]
           \<and> velocity inst' = fold (\<lambda>v a. to_float h (a + v))
                 (take (POSITION_AVERAGE_SIZE h) (memo_velocity inst')) 0
                 * POSITION_AVERAGE_RECIP h
           \<and> velocity_rpm inst' = velocity inst' * 60
           \<and> vp' = (if vp \<ge> POSITION_AVERAGE_SIZE h then 0 else Suc vp)"
      unfolding mv pu by simp
  }
qed

lemma process_read_parts:
  assumes "process_read h enc data cur period = Inr (enc', cur')" and "instances enc \<noteq> []"
  shows "\<exists>insts1.
     index_pulse_loop (single_dword_buffer enc * 8) 0x80 cur data (instances enc)
        = Inr (insts1, cur + single_dword_buffer enc)
     \<and> process_instances h (recip_dt enc') (velocity_pointer enc) data
          (cur + single_dword_buffer enc) insts1
        = Inr (instances enc', velocity_pointer enc', cur')"
    and "memo_period enc' = period"
    and "recip_dt enc' = (if memo_period enc \<noteq> period
           then 1 / (real_of_int period * (1 / 10 ^ 9)) else recip_dt enc)"
proof -
  have s: "single_dword_buffer (enc\<lparr>recip_dt := x, memo_period := y\<rparr>) = single_dword_buffer enc"
    for x y by (simp add: single_dword_buffer_def num_instances_def)
  from assms show "memo_period enc' = period"
    and r: "recip_dt enc' = (if memo_period enc \<noteq> period
           then 1 / (real_of_int period * (1 / 10 ^ 9)) else recip_dt enc)"
    by (auto simp: process_read_def num_instances_def Let_def s split: if_splits sum.splits)
  from process_read_Inr [OF assms] obtain insts1 cur1 where
    lp: "index_pulse_loop (single_dword_buffer enc * 8) 0x80 cur data (instances enc)
        = Inr (insts1, cur1)" and
    pi: "process_instances h (recip_dt enc') (velocity_pointer enc) data cur1 insts1
        = Inr (instances enc', velocity_pointer enc', cur')"
    unfolding r by blast
  from index_pulse_loop_result [OF lp mask_at_start] have "cur1 = cur + single_dword_buffer enc"
    by simp
  with lp pi show "\<exists>insts1.
     index_pulse_loop (single_dword_buffer enc * 8) 0x80 cur data (instances enc)
        = Inr (insts1, cur + single_dword_buffer enc)
     \<and> process_instances h (recip_dt enc') (velocity_pointer enc) data
          (cur + single_dword_buffer enc) insts1
        = Inr (instances enc', velocity_pointer enc', cur')"
    by blast
qed

text \<open>
  A pass of \<open>process_read\<close> that returns has run \<open>process_instance\<close> on every
  instance, with the flags the index-pulse loop left.
\<close>

lemma process_read_instance:
  assumes "process_read h enc data cur period = Inr (enc', cur')" and "j < num_instances enc"
  shows "\<exists>vp vp'. process_instance h (recip_dt enc') vp data
            (cur + single_dword_buffer enc + j * sizeof_read_data)
            ((instances enc ! j)\<lparr>index_enable := index_enable (instances enc' ! j),
                                  index_pulse := index_pulse (instances enc' ! j)\<rparr>)
          = Inr (instances enc' ! j, vp',
                 cur + single_dword_buffer enc + Suc j * sizeof_read_data)"
proof -
  from assms(2) have ne: "instances enc \<noteq> []" and j: "j < length (instances enc)"
    by (auto simp: num_instances_def)
  from process_read_parts(1) [OF assms(1) ne] obtain insts1 where
    lp: "index_pulse_loop (single_dword_buffer enc * 8) 0x80 cur data (instances enc)
        = Inr (insts1, cur + single_dword_buffer enc)" and
    pi: "process_instances h (recip_dt enc') (velocity_pointer enc) data
          (cur + single_dword_buffer enc) insts1
        = Inr (instances enc', velocity_pointer enc', cur')"
    by blast
  from index_pulse_loop_frame [OF lp] j have
    l1: "length insts1 = length (instances enc)" and
    fr: "insts1 ! j = (instances enc ! j)\<lparr>index_enable := index_enable (insts1 ! j),
                                          index_pulse := index_pulse (insts1 ! j)\<rparr>"
    by blast+
  from process_instances_nth [OF pi] j l1 obtain vp vp' where
    p: "process_instance h (recip_dt enc') vp data
          (cur + single_dword_buffer enc + j * sizeof_read_data) (insts1 ! j)
        = Inr (instances enc' ! j, vp',
               cur + single_dword_buffer enc + Suc j * sizeof_read_data)"
    by auto
  from process_instance_flags [OF p] have
    "index_pulse (insts1 ! j) = index_pulse (instances enc' ! j)"
    "index_enable (insts1 ! j) = index_enable (instances enc' ! j)"
    by simp_all
  with fr have "insts1 ! j
      = (instances enc ! j)\<lparr>index_enable := index_enable (instances enc' ! j),
                             index_pulse := index_pulse (instances enc' ! j)\<rparr>"
    by simp
  with p show ?thesis by auto
qed

lemma roll_over_zero: "roll_over x4 0 = (False, 0)"
  by (simp add: roll_over_def INT_MIN_def INT_MAX_def)

lemma tick_difference_flags [simp]:
  "tick_difference (inst\<lparr>index_enable := e, index_pulse := p\<rparr>) inst' = tick_difference inst inst'"
  by (simp add: tick_difference_def)

lemma roll_over_forward:
  "roll_over x4 (- 4294967281) = (True, if x4 then 14 else 3)"
  by (simp add: roll_over_def INT_MIN_def INT_MAX_def UINT_MAX_def signed_divide_int_def)



lemma update_position_scale_flags_upd [simp]:
  "position_scale (update_position_scale (inst\<lparr>index_enable := e, index_pulse := p\<rparr>))
     = position_scale (update_position_scale inst)"
  "position_scale_recip (update_position_scale (inst\<lparr>index_enable := e, index_pulse := p\<rparr>))
     = position_scale_recip (update_position_scale inst)"
  "memo_position_scale (update_position_scale (inst\<lparr>index_enable := e, index_pulse := p\<rparr>))
     = memo_position_scale (update_position_scale inst)"
  by (simp_all add: update_position_scale_def Let_def)

subsection \<open>When a pass returns\<close>

lemma update_velocity_returns:
  assumes "index_pulse inst \<or> (vp < length (memo_velocity inst)
             \<and> POSITION_AVERAGE_SIZE h \<le> length (memo_velocity inst))"
  shows "\<exists>inst' vp'. update_velocity h rdt vp po inst = Inr (inst', vp') \<and> vp' \<le> Suc vp"
  using assms by (auto simp: update_velocity_def Let_def)

lemma process_instance_returns:
  assumes "cur + sizeof_read_data \<le> length data"
    and "index_pulse inst \<or> (vp < length (memo_velocity inst)
             \<and> POSITION_AVERAGE_SIZE h \<le> length (memo_velocity inst))"
  shows "\<exists>inst' vp'. process_instance h rdt vp data cur inst
            = Inr (inst', vp', cur + sizeof_read_data) \<and> vp' \<le> Suc vp"
proof -
  define s where "s = update_position_scale inst"
  define r where "r = read_counts (be32toh data cur) s"
  define u where "u = update_position (snd r) (fst r)"
  have "index_pulse u = index_pulse inst" "memo_velocity u = memo_velocity inst"
    by (simp_all add: u_def r_def s_def)
  with assms(2) have "index_pulse u \<or> (vp < length (memo_velocity u)
             \<and> POSITION_AVERAGE_SIZE h \<le> length (memo_velocity u))"
    by simp
  from update_velocity_returns [OF this, of rdt "to_float h (position (fst r))"]
  obtain inst' vp' where
    "update_velocity h rdt vp (to_float h (position (fst r))) u = Inr (inst', vp')"
    "vp' \<le> Suc vp"
    by blast
  with assms(1) show ?thesis
    by (simp add: process_instance_def Let_def split_beta s_def r_def u_def)
qed

lemma process_instances_returns:
  assumes "cur + length insts * sizeof_read_data \<le> length data"
    and "\<forall>inst \<in> set insts. vp + length insts \<le> length (memo_velocity inst)
           \<and> POSITION_AVERAGE_SIZE h \<le> length (memo_velocity inst)"
  shows "\<exists>insts' vp'. process_instances h rdt vp data cur insts
            = Inr (insts', vp', cur + length insts * sizeof_read_data)"
  using assms
proof (induction insts arbitrary: vp cur)
  case Nil
  then show ?case by simp
next
  case (Cons inst insts)
  from Cons.prems have a: "cur + sizeof_read_data \<le> length data"
    and b: "vp < length (memo_velocity inst)
             \<and> POSITION_AVERAGE_SIZE h \<le> length (memo_velocity inst)"
    by auto
  from process_instance_returns [OF a, of inst vp h rdt] b obtain inst' vp1 where
    p: "process_instance h rdt vp data cur inst = Inr (inst', vp1, cur + sizeof_read_data)"
    and v: "vp1 \<le> Suc vp"
    by blast
  from Cons.prems(1) have c: "cur + sizeof_read_data + length insts * sizeof_read_data
      \<le> length data"
    by (simp add: add.assoc)
  from Cons.prems(2) v have d: "\<forall>inst \<in> set insts.
      vp1 + length insts \<le> length (memo_velocity inst)
      \<and> POSITION_AVERAGE_SIZE h \<le> length (memo_velocity inst)"
    by auto
  from Cons.IH [OF c d] obtain insts' vp' where
    "process_instances h rdt vp1 data (cur + sizeof_read_data) insts
       = Inr (insts', vp', cur + sizeof_read_data + length insts * sizeof_read_data)"
    by blast
  with p show ?case by (simp add: add.assoc)
qed

text \<open>
  A pass returns when the buffer holds the index-pulse register and the count
  records, and the velocity arrays have room for the pointer to advance once per
  encoder.
\<close>

lemma process_read_returns:
  assumes "cur + single_dword_buffer enc + num_instances enc * sizeof_read_data \<le> length data"
    and "\<forall>inst \<in> set (instances enc).
           velocity_pointer enc + num_instances enc \<le> length (memo_velocity inst)
           \<and> POSITION_AVERAGE_SIZE h \<le> length (memo_velocity inst)"
  shows "\<exists>enc'. process_read h enc data cur period
           = Inr (enc', cur + single_dword_buffer enc + num_instances enc * sizeof_read_data)"
proof (cases "instances enc = []")
  case True
  then have "num_instances enc = 0" by (simp add: num_instances_def)
  then show ?thesis by (simp add: process_read_def single_dword_buffer_def)
next
  case False
  define s where "s = single_dword_buffer enc"
  define insts where "insts = instances enc"
  define rdt where "rdt = (if memo_period enc \<noteq> period
      then 1 / (real_of_int period * (1 / 10 ^ 9)) else recip_dt enc)"
  have n: "num_instances enc = length insts" by (simp add: num_instances_def insts_def)
  from assms(1) have "cur + (s * 8 + 7) div 8 \<le> length data" by (simp add: s_def)
  from index_pulse_loop_returns [OF mask_at_start this, of insts] obtain insts1 cur1 where
    lp: "index_pulse_loop (s * 8) 0x80 cur data insts = Inr (insts1, cur1)"
    by (metis surj_pair)
  from index_pulse_loop_result [OF lp mask_at_start] have c1: "cur1 = cur + s" by simp
  from index_pulse_loop_frame [OF lp] have
    l1: "length insts1 = length insts" and
    fr: "\<forall>j < length insts. insts1 ! j =
           (insts ! j)\<lparr>index_enable := index_enable (insts1 ! j),
                        index_pulse := index_pulse (insts1 ! j)\<rparr>"
    by blast+
  have mv: "velocity_pointer enc + length insts1 \<le> length (memo_velocity inst)
           \<and> POSITION_AVERAGE_SIZE h \<le> length (memo_velocity inst)"
    if "inst \<in> set insts1" for inst
  proof -
    from that obtain j where j: "j < length insts1" "inst = insts1 ! j"
      by (auto simp: in_set_conv_nth)
    with fr l1 have "insts1 ! j =
        (insts ! j)\<lparr>index_enable := index_enable (insts1 ! j),
                     index_pulse := index_pulse (insts1 ! j)\<rparr>"
      by simp
    then have "memo_velocity (insts1 ! j) =
        memo_velocity ((insts ! j)\<lparr>index_enable := index_enable (insts1 ! j),
                                   index_pulse := index_pulse (insts1 ! j)\<rparr>)"
      by (rule arg_cong)
    with j have "memo_velocity inst = memo_velocity (insts ! j)" by simp
    moreover from j l1 have "insts ! j \<in> set insts" by simp
    ultimately show ?thesis using assms(2) l1 by (simp add: n insts_def)
  qed
  from assms(1) have "cur1 + length insts1 * sizeof_read_data \<le> length data"
    by (simp add: c1 l1 n s_def)
  from process_instances_returns [OF this, of "velocity_pointer enc" h rdt] mv
  obtain insts2 vp where
    pi: "process_instances h rdt (velocity_pointer enc) data cur1 insts1
           = Inr (insts2, vp, cur1 + length insts1 * sizeof_read_data)"
    by blast
  have sd: "single_dword_buffer (enc\<lparr>recip_dt := x, memo_period := y\<rparr>) = s"
    for x y by (simp add: single_dword_buffer_def num_instances_def s_def)
  from False lp pi show ?thesis
    by (cases "memo_period enc = period")
      (simp_all add: process_read_def num_instances_def Let_def sd rdt_def c1 l1
        insts_def [symmetric] s_def [symmetric])
qed

subsection \<open>Roll-over, index pulse, reset and scale\<close>

text \<open>
  C7. A channel receives the raw counts \<open>2^31 - 5\<close> in one pass and \<open>-(2^31) + 10\<close> in
  the next, with no index pulse in the second pass (the first pass has cleared the
  reset pin). Then the second pass sets \<open>overflow_occurred\<close>, its difference after
  the compensation with \<^verbatim>\<open>UINT_MAX\<close> is 14, or 3 when the channel is not in x4 mode,
  and the position advances by that difference times the reciprocal of the scale.
\<close>

theorem forward_rollover:
  assumes "process_read h enc0 data1 cur1 period1 = Inr (enc1, cur1')"
    and "process_read h enc1 data2 cur2 period2 = Inr (enc2, cur2')"
    and "j < num_instances enc0"
    and "sint (be32toh data1 (cur1 + single_dword_buffer enc0 + j * sizeof_read_data))
           = 2 ^ 31 - 5"
    and "sint (be32toh data2 (cur2 + single_dword_buffer enc1 + j * sizeof_read_data))
           = - (2 ^ 31) + 10"
    and "\<not> index_pulse (instances enc2 ! j)"
  shows "overflow_occurred (instances enc2 ! j)
     \<and> tick_difference (instances enc1 ! j) (instances enc2 ! j)
         = (if x4_mode (instances enc1 ! j) then 14 else 3)
     \<and> position (instances enc2 ! j)
         = position (instances enc1 ! j)
             + (if x4_mode (instances enc1 ! j) then 14 else 3)
                 * position_scale_recip (instances enc2 ! j)"
proof -
  from process_read_flags(1) [OF assms(1,3)] assms(3)
  have j1: "j < num_instances enc1" by simp
  from process_read_instance [OF assms(1,3)] obtain vp vp' where
    p1: "process_instance h (recip_dt enc1) vp data1
            (cur1 + single_dword_buffer enc0 + j * sizeof_read_data)
            ((instances enc0 ! j)\<lparr>index_enable := index_enable (instances enc1 ! j),
                                   index_pulse := index_pulse (instances enc1 ! j)\<rparr>)
          = Inr (instances enc1 ! j, vp',
                 cur1 + single_dword_buffer enc0 + Suc j * sizeof_read_data)"
    by blast
  from process_read_instance [OF assms(2) j1] obtain wp wp' where
    p2: "process_instance h (recip_dt enc2) wp data2
            (cur2 + single_dword_buffer enc1 + j * sizeof_read_data)
            ((instances enc1 ! j)\<lparr>index_enable := index_enable (instances enc2 ! j),
                                   index_pulse := index_pulse (instances enc2 ! j)\<rparr>)
          = Inr (instances enc2 ! j, wp',
                 cur2 + single_dword_buffer enc1 + Suc j * sizeof_read_data)"
    by blast
  from process_instance_fields(1,2) [OF p1] assms(4) have
    r1: "sint (raw_counts (instances enc1 ! j)) = 2 ^ 31 - 5" and
    nr: "\<not> reset (instances enc1 ! j)"
    by simp_all
  from process_instance_fields(1) [OF p2] assms(5) have
    r2: "sint (raw_counts (instances enc2 ! j)) = - (2 ^ 31) + 10"
    by simp
  have d: "tick_difference (instances enc1 ! j) (instances enc2 ! j)
         = (if x4_mode (instances enc1 ! j) then 14 else 3)"
    unfolding tick_difference_def using nr by (simp add: r1 r2 roll_over_forward)
  from process_instance_fields(9) [OF p2] nr assms(6)
  have o: "overflow_occurred (instances enc2 ! j)"
    by (simp add: r1 r2 roll_over_forward)
  from process_instance_fields(10) [OF p2] o assms(6)
  have "position (instances enc2 ! j)
      = position (instances enc1 ! j)
          + real_of_int (tick_difference (instances enc1 ! j) (instances enc2 ! j))
              * position_scale_recip (instances enc2 ! j)"
    by simp
  with o d show ?thesis by simp
qed

text \<open>
  Witness for C7: one encoder in x4 mode with scale 1; the position goes from
  2147483643 to 2147483657.
\<close>

theorem forward_rollover_witness:
  "process_read example_header
      (zeroed_encoder [(zeroed_instance 8)\<lparr>position_scale := 1, x4_mode := True\<rparr>])
      [0, 0, 0, 0, 0x7F, 0xFF, 0xFF, 0xFB] 0 1000000
     = Inr (\<lparr>instances =
              [(zeroed_instance 8)
                 \<lparr>raw_counts := 0x7FFFFFFB, counts := 0x7FFFFFFB, position := 2147483643,
                  velocity := 268435455375, velocity_rpm := 16106127322500,
                  position_scale := 1, x4_mode := True, memo_position_scale := 1,
                  memo_velocity := [2147483643000, 0, 0, 0, 0, 0, 0, 0],
                  position_scale_recip := 1\<rparr>],
             memo_period = 1000000, velocity_pointer = 1, recip_dt = 1000\<rparr>, 8)
   \<and> process_read example_header
       \<lparr>instances =
          [(zeroed_instance 8)
             \<lparr>raw_counts := 0x7FFFFFFB, counts := 0x7FFFFFFB, position := 2147483643,
              velocity := 268435455375, velocity_rpm := 16106127322500,
              position_scale := 1, x4_mode := True, memo_position_scale := 1,
              memo_velocity := [2147483643000, 0, 0, 0, 0, 0, 0, 0],
              position_scale_recip := 1\<rparr>],
         memo_period = 1000000, velocity_pointer = 1, recip_dt = 1000\<rparr>
       [0, 0, 0, 0, 0x80, 0, 0, 0x0A] 0 1000000
     = Inr (\<lparr>instances =
              [(zeroed_instance 8)
                 \<lparr>raw_counts := 0x8000000A, counts := 0x8000000A, position := 2147483657,
                  velocity := 268435457125, velocity_rpm := 16106127427500,
                  overflow_occurred := True,
                  position_scale := 1, x4_mode := True, memo_position_scale := 1,
                  memo_velocity := [2147483643000, 14000, 0, 0, 0, 0, 0, 0],
                  position_scale_recip := 1\<rparr>],
             memo_period = 1000000, velocity_pointer = 2, recip_dt = 1000\<rparr>, 8)
   \<and> tick_difference
        ((zeroed_instance 8)
           \<lparr>raw_counts := 0x7FFFFFFB, counts := 0x7FFFFFFB, position := 2147483643,
            velocity := 268435455375, velocity_rpm := 16106127322500,
            position_scale := 1, x4_mode := True, memo_position_scale := 1,
            memo_velocity := [2147483643000, 0, 0, 0, 0, 0, 0, 0],
            position_scale_recip := 1\<rparr>)
        ((zeroed_instance 8)
           \<lparr>raw_counts := 0x8000000A, counts := 0x8000000A, position := 2147483657,
            velocity := 268435457125, velocity_rpm := 16106127427500,
            overflow_occurred := True,
            position_scale := 1, x4_mode := True, memo_position_scale := 1,
            memo_velocity := [2147483643000, 14000, 0, 0, 0, 0, 0, 0],
            position_scale_recip := 1\<rparr>) = 14"
proof -
  let ?enc0 = "zeroed_encoder [(zeroed_instance 8)\<lparr>position_scale := 1, x4_mode := True\<rparr>]"
  let ?i1 = "(zeroed_instance 8)
           \<lparr>raw_counts := 0x7FFFFFFB, counts := 0x7FFFFFFB, position := 2147483643,
            velocity := 268435455375, velocity_rpm := 16106127322500,
            position_scale := 1, x4_mode := True, memo_position_scale := 1,
            memo_velocity := [2147483643000, 0, 0, 0, 0, 0, 0, 0],
            position_scale_recip := 1\<rparr>"
  let ?i2 = "(zeroed_instance 8)
           \<lparr>raw_counts := 0x8000000A, counts := 0x8000000A, position := 2147483657,
            velocity := 268435457125, velocity_rpm := 16106127427500,
            overflow_occurred := True,
            position_scale := 1, x4_mode := True, memo_position_scale := 1,
            memo_velocity := [2147483643000, 14000, 0, 0, 0, 0, 0, 0],
            position_scale_recip := 1\<rparr>"
  let ?enc1 = "\<lparr>instances = [?i1],
                memo_period = 1000000, velocity_pointer = 1, recip_dt = 1000\<rparr>"
  let ?enc2 = "\<lparr>instances = [?i2],
                memo_period = 1000000, velocity_pointer = 2, recip_dt = 1000\<rparr>"
  let ?d1 = "[0, 0, 0, 0, 0x7F, 0xFF, 0xFF, 0xFB] :: byte list"
  let ?d2 = "[0, 0, 0, 0, 0x80, 0, 0, 0x0A] :: byte list"
  have a: "process_read example_header ?enc0 ?d1 0 1000000 = Inr (?enc1, 8)" by code_simp
  have b: "process_read example_header ?enc1 ?d2 0 1000000 = Inr (?enc2, 8)" by code_simp
  have c: "0 < num_instances ?enc0" by code_simp
  have d: "sint (be32toh ?d1 (0 + single_dword_buffer ?enc0 + 0 * sizeof_read_data))
             = 2 ^ 31 - 5"
    by code_simp
  have e: "sint (be32toh ?d2 (0 + single_dword_buffer ?enc1 + 0 * sizeof_read_data))
             = - (2 ^ 31) + 10"
    by code_simp
  have f: "\<not> index_pulse (instances ?enc2 ! 0)" by code_simp
  have g: "x4_mode (instances ?enc1 ! 0)" by code_simp
  have h: "instances ?enc1 ! 0 = ?i1" "instances ?enc2 ! 0 = ?i2" by simp_all
  from forward_rollover [OF a b c d e f] a b show ?thesis
    unfolding h using g [unfolded h] by simp
qed

text \<open>
  C8. In a pass after which the index pulse of a channel is set (the pin is not
  written after the index-pulse loop, so this is the pass in which it is true), the
  position is the counts times the reciprocal of the scale and \<open>overflow_occurred\<close>
  is clear, whatever it was before; the velocity array, the velocity and the
  velocity in rpm are the ones from before the pass.
\<close>

theorem index_pulse_tick:
  assumes "process_read h enc data cur period = Inr (enc', cur')"
    and "j < num_instances enc"
    and "index_pulse (instances enc' ! j)"
  shows "position (instances enc' ! j)
           = real_of_int (sint (counts (instances enc' ! j)))
               * position_scale_recip (instances enc' ! j)
     \<and> \<not> overflow_occurred (instances enc' ! j)
     \<and> memo_velocity (instances enc' ! j) = memo_velocity (instances enc ! j)
     \<and> velocity (instances enc' ! j) = velocity (instances enc ! j)
     \<and> velocity_rpm (instances enc' ! j) = velocity_rpm (instances enc ! j)"
proof -
  from process_read_instance [OF assms(1,2)] obtain vp vp' c c' where
    p: "process_instance h (recip_dt enc') vp data c
          ((instances enc ! j)\<lparr>index_enable := index_enable (instances enc' ! j),
                                index_pulse := index_pulse (instances enc' ! j)\<rparr>)
        = Inr (instances enc' ! j, vp', c')"
    by blast
  from process_instance_fields(9,10) [OF p] process_instance_velocity(1) [OF p] assms(3)
  show ?thesis by simp
qed

text \<open>
  Witness for C8: the first of two encoders enters the pass with
  \<open>overflow_occurred\<close> set and receives its index pulse.
\<close>

theorem index_pulse_tick_witness:
  "process_read example_header
      (zeroed_encoder
         [(zeroed_instance 8)
            \<lparr>position := 77, velocity := 5, velocity_rpm := 300, overflow_occurred := True,
             position_scale := 1, memo_position_scale := 1,
             memo_velocity := [5, 5, 5, 5, 5, 5, 5, 5], position_scale_recip := 1\<rparr>,
          zeroed_instance 8])
      [0, 0, 0, 1, 0, 0, 0, 8, 0, 0, 0, 0] 0 1000000
     = Inr (\<lparr>instances =
              [(zeroed_instance 8)
                 \<lparr>raw_counts := 8, counts := 2, index_pulse := True, position := 2,
                  velocity := 5, velocity_rpm := 300,
                  position_scale := 1, memo_position_scale := 1,
                  memo_velocity := [5, 5, 5, 5, 5, 5, 5, 5], position_scale_recip := 1\<rparr>,
               zeroed_instance 8],
             memo_period = 1000000, velocity_pointer = 1, recip_dt = 1000\<rparr>, 12)
   \<and> position
        ((zeroed_instance 8)
           \<lparr>raw_counts := 8, counts := 2, index_pulse := True, position := 2,
            velocity := 5, velocity_rpm := 300,
            position_scale := 1, memo_position_scale := 1,
            memo_velocity := [5, 5, 5, 5, 5, 5, 5, 5], position_scale_recip := 1\<rparr>)
       = real_of_int (sint (2 :: s32)) * 1"
proof -
  let ?i0 = "(zeroed_instance 8)
            \<lparr>position := 77, velocity := 5, velocity_rpm := 300, overflow_occurred := True,
             position_scale := 1, memo_position_scale := 1,
             memo_velocity := [5, 5, 5, 5, 5, 5, 5, 5], position_scale_recip := 1\<rparr>"
  let ?i1 = "(zeroed_instance 8)
                 \<lparr>raw_counts := 8, counts := 2, index_pulse := True, position := 2,
                  velocity := 5, velocity_rpm := 300,
                  position_scale := 1, memo_position_scale := 1,
                  memo_velocity := [5, 5, 5, 5, 5, 5, 5, 5], position_scale_recip := 1\<rparr>"
  let ?enc = "zeroed_encoder [?i0, zeroed_instance 8]"
  let ?enc' = "\<lparr>instances = [?i1, zeroed_instance 8],
                memo_period = 1000000, velocity_pointer = 1, recip_dt = 1000\<rparr>"
  have a: "process_read example_header ?enc [0, 0, 0, 1, 0, 0, 0, 8, 0, 0, 0, 0] 0 1000000
             = Inr (?enc', 12)"
    by code_simp
  have b: "0 < num_instances ?enc" by code_simp
  have c: "index_pulse (instances ?enc' ! 0)" by code_simp
  have h: "instances ?enc' ! 0 = ?i1" by simp
  from index_pulse_tick [OF a b c] a show ?thesis
    unfolding h by simp
qed

text \<open>
  C9. In a pass that finds the reset pin of a channel set, \<open>overflow_occurred\<close>
  becomes false, the counts before the offset become the reset offset, so that the
  counts and the position are 0 after the pass, the difference of the roll-over
  detection is 0 whatever the previous raw counts were (\<open>counts_old\<close> has been
  replaced by the new raw counts), and the reset pin is cleared.
\<close>

theorem reset_tick:
  assumes "process_read h enc data cur period = Inr (enc', cur')"
    and "j < num_instances enc"
    and "reset (instances enc ! j)"
  shows "\<not> overflow_occurred (instances enc' ! j)
     \<and> memo_position_reset (instances enc' ! j)
         = (if x4_mode (instances enc ! j) then raw_counts (instances enc' ! j)
            else div4 (raw_counts (instances enc' ! j)))
     \<and> counts (instances enc' ! j) = 0
     \<and> position (instances enc' ! j) = 0
     \<and> tick_difference (instances enc ! j) (instances enc' ! j) = 0
     \<and> \<not> reset (instances enc' ! j)"
proof -
  from process_read_instance [OF assms(1,2)] obtain vp vp' c c' where
    p: "process_instance h (recip_dt enc') vp data c
          ((instances enc ! j)\<lparr>index_enable := index_enable (instances enc' ! j),
                                index_pulse := index_pulse (instances enc' ! j)\<rparr>)
        = Inr (instances enc' ! j, vp', c')"
    by blast
  note f = process_instance_fields [OF p]
  from f(9) assms(3) have o: "\<not> overflow_occurred (instances enc' ! j)"
    by (simp add: roll_over_zero)
  from f(4) assms(3) have m: "memo_position_reset (instances enc' ! j)
         = (if x4_mode (instances enc ! j) then raw_counts (instances enc' ! j)
            else div4 (raw_counts (instances enc' ! j)))"
    by simp
  from f(5) m have c0: "counts (instances enc' ! j) = 0" by simp
  from f(10) o c0 have p0: "position (instances enc' ! j) = 0" by simp
  from assms(3) have "tick_difference (instances enc ! j) (instances enc' ! j) = 0"
    by (simp add: tick_difference_def roll_over_zero)
  with o m c0 p0 f(2) show ?thesis by simp
qed

text \<open>
  Witness for C9: scale 1, x4 mode, the raw counts 1000 arrive while the reset pin and
  \<open>overflow_occurred\<close> are set.
\<close>

theorem reset_tick_witness:
  "process_read example_header
      (zeroed_encoder
         [(zeroed_instance 8)
            \<lparr>raw_counts := 1000, counts := 1000, reset := True, position := 1000,
             overflow_occurred := True, position_scale := 1, x4_mode := True\<rparr>])
      [0, 0, 0, 0, 0, 0, 3, 0xE8] 0 1000000
     = Inr (\<lparr>instances =
              [(zeroed_instance 8)
                 \<lparr>raw_counts := 1000, velocity := - 125000, velocity_rpm := - 7500000,
                  position_scale := 1, x4_mode := True, memo_position_scale := 1,
                  memo_position_reset := 1000,
                  memo_velocity := [- 1000000, 0, 0, 0, 0, 0, 0, 0],
                  position_scale_recip := 1\<rparr>],
             memo_period = 1000000, velocity_pointer = 1, recip_dt = 1000\<rparr>, 8)
   \<and> counts
        ((zeroed_instance 8)
           \<lparr>raw_counts := 1000, velocity := - 125000, velocity_rpm := - 7500000,
            position_scale := 1, x4_mode := True, memo_position_scale := 1,
            memo_position_reset := 1000,
            memo_velocity := [- 1000000, 0, 0, 0, 0, 0, 0, 0],
            position_scale_recip := 1\<rparr>) = 0
   \<and> position
        ((zeroed_instance 8)
           \<lparr>raw_counts := 1000, velocity := - 125000, velocity_rpm := - 7500000,
            position_scale := 1, x4_mode := True, memo_position_scale := 1,
            memo_position_reset := 1000,
            memo_velocity := [- 1000000, 0, 0, 0, 0, 0, 0, 0],
            position_scale_recip := 1\<rparr>) = 0"
proof -
  let ?i0 = "(zeroed_instance 8)
            \<lparr>raw_counts := 1000, counts := 1000, reset := True, position := 1000,
             overflow_occurred := True, position_scale := 1, x4_mode := True\<rparr>"
  let ?i1 = "(zeroed_instance 8)
           \<lparr>raw_counts := 1000, velocity := - 125000, velocity_rpm := - 7500000,
            position_scale := 1, x4_mode := True, memo_position_scale := 1,
            memo_position_reset := 1000,
            memo_velocity := [- 1000000, 0, 0, 0, 0, 0, 0, 0],
            position_scale_recip := 1\<rparr>"
  let ?enc = "zeroed_encoder [?i0]"
  let ?enc' = "\<lparr>instances = [?i1],
                memo_period = 1000000, velocity_pointer = 1, recip_dt = 1000\<rparr>"
  have a: "process_read example_header ?enc [0, 0, 0, 0, 0, 0, 3, 0xE8] 0 1000000
             = Inr (?enc', 8)"
    by code_simp
  have b: "0 < num_instances ?enc" by code_simp
  have c: "reset (instances ?enc ! 0)" by code_simp
  have h: "instances ?enc' ! 0 = ?i1" by simp
  from reset_tick [OF a b c] a show ?thesis
    unfolding h by simp
qed

text \<open>
  \<open>double_1e_20\<close> is a 53-bit multiple of \<open>2^-119\<close> within half a unit of \<open>10^-20\<close>, and
  a changed scale equal to it, or to its negation, is not clamped.
\<close>

lemma double_1e_20_nearest:
  "double_1e_20 < 1 / 10 ^ 20" "1 / 10 ^ 20 - double_1e_20 \<le> 1 / 2 ^ 120"
  "2 ^ 52 \<le> (6646139978924579 :: nat)" "(6646139978924579 :: nat) < 2 ^ 53"
  by (simp_all add: double_1e_20_def field_simps)

lemma update_position_scale_boundary:
  assumes "position_scale inst \<noteq> memo_position_scale inst"
    and "position_scale inst = double_1e_20 \<or> position_scale inst = - double_1e_20"
  shows "position_scale (update_position_scale inst) = position_scale inst"
    and "position_scale_recip (update_position_scale inst) = 1 / position_scale inst"
  using assms by (auto simp: update_position_scale_def Let_def double_1e_20_def)






subsection \<open>The velocity pointer\<close>

text \<open>
  For every size \<open>N\<close> of the average: a pass over an encoder without index pulse
  that starts with the pointer at \<open>N - 1\<close> leaves it at \<open>N\<close>, and a pass that starts
  with the pointer at or beyond the end of the velocity array does not return.
\<close>

lemma velocity_pointer_reaches_size:
  assumes "process_instance h rdt vp data cur inst = Inr (inst', vp', cur')"
    and "\<not> index_pulse inst" and "Suc vp = POSITION_AVERAGE_SIZE h"
  shows "vp' = POSITION_AVERAGE_SIZE h"
  using process_instance_velocity(2) [OF assms(1,2)] assms(3) by simp

lemma velocity_write_outside_array:
  assumes "\<not> index_pulse inst" and "length (memo_velocity inst) \<le> vp"
  shows "process_instance h rdt vp data cur inst = Inl Buffer_overrun
     \<or> process_instance h rdt vp data cur inst = Inl Velocity_index_out_of_range"
proof (cases "process_instance h rdt vp data cur inst")
  case (Inl e)
  then show ?thesis by (cases e) simp_all
next
  case (Inr r)
  then obtain inst' vp' cur' where
    "process_instance h rdt vp data cur inst = Inr (inst', vp', cur')"
    by (cases r) auto
  from process_instance_velocity(2) [OF this assms(1)] assms(2) show ?thesis by simp
qed

text \<open>
  With one encoder, every pass without index pulse that returns has written
  inside the array and moves the pointer one step, from 0 up to \<open>N\<close>; only a pointer
  already at \<open>N\<close> or beyond would be set back to 0.
\<close>

lemma single_encoder_pointer_step:
  assumes "process_read h enc data cur period = Inr (enc', cur')"
    and "num_instances enc = 1"
    and "\<not> index_pulse (instances enc' ! 0)"
  shows "velocity_pointer enc < length (memo_velocity (instances enc ! 0))"
    and "velocity_pointer enc'
           = (if velocity_pointer enc \<ge> POSITION_AVERAGE_SIZE h then 0
              else Suc (velocity_pointer enc))"
proof -
  from assms(2) have ne: "instances enc \<noteq> []" and l: "length (instances enc) = 1"
    by (auto simp: num_instances_def)
  from process_read_parts(1) [OF assms(1) ne] obtain insts1 where
    lp: "index_pulse_loop (single_dword_buffer enc * 8) 0x80 cur data (instances enc)
        = Inr (insts1, cur + single_dword_buffer enc)" and
    pi: "process_instances h (recip_dt enc') (velocity_pointer enc) data
          (cur + single_dword_buffer enc) insts1
        = Inr (instances enc', velocity_pointer enc', cur')"
    by blast
  from index_pulse_loop_frame [OF lp] l have
    l1: "length insts1 = 1" and x: "insts1 ! 0 = instances enc ! 0"
    by simp_all
  from l1 obtain x where i1: "insts1 = [x]" by (cases insts1) auto
  from pi obtain x' c where
    p: "process_instance h (recip_dt enc') (velocity_pointer enc) data
          (cur + single_dword_buffer enc) x = Inr (x', velocity_pointer enc', c)" and
    e: "instances enc' = [x']"
    unfolding i1 by (auto split: sum.splits)
  from process_instance_flags [OF p] assms(3) e have np: "\<not> index_pulse x" by simp
  from x i1 have "x = instances enc ! 0" by simp
  with process_instance_velocity(2) [OF p np]
  show "velocity_pointer enc < length (memo_velocity (instances enc ! 0))"
    and "velocity_pointer enc'
           = (if velocity_pointer enc \<ge> POSITION_AVERAGE_SIZE h then 0
              else Suc (velocity_pointer enc))"
    by simp_all
qed

text \<open>
  C5. The write index is claimed to stay within \<open>0..N-1\<close> and to advance once per
  pass, so that the array holds the \<open>N\<close> most recent samples of the channel. With
  \<open>N = 8\<close> and one encoder, a pass that starts with the pointer at 7 leaves it at 8,
  and the next pass writes at index 8, outside the array. With two encoders, one
  pass moves the pointer from 0 to 2: it is advanced for every encoder without an
  index pulse.
\<close>

theorem velocity_pointer_leaves_array:
  "process_read example_header
      ((zeroed_encoder [zeroed_instance 8])\<lparr>velocity_pointer := 7\<rparr>)
      [0, 0, 0, 0, 0, 0, 0, 0] 0 1000000
     = Inr (\<lparr>instances = [zeroed_instance 8],
             memo_period = 1000000, velocity_pointer = 8, recip_dt = 1000\<rparr>, 8)
   \<and> process_read example_header
       \<lparr>instances = [zeroed_instance 8],
         memo_period = 1000000, velocity_pointer = 8, recip_dt = 1000\<rparr>
       [0, 0, 0, 0, 0, 0, 0, 0] 0 1000000
     = Inl Velocity_index_out_of_range
   \<and> process_read example_header (zeroed_encoder [zeroed_instance 8, zeroed_instance 8])
       [0, 0, 0, 0, 0, 0, 0, 0, 0, 0, 0, 0] 0 1000000
     = Inr (\<lparr>instances = [zeroed_instance 8, zeroed_instance 8],
             memo_period = 1000000, velocity_pointer = 2, recip_dt = 1000\<rparr>, 12)"
  by code_simp

end
